theory Spec2Isabelle
  imports Main "HOL-Library.Word"
begin

section \<open>Data model (models.py)\<close>

text \<open>
  Python's unbounded integers are \<open>int\<close>. The field \<open>end\<close> of a chunk is written
  \<open>end_byte\<close>. The field \<open>speed\<close> of a chunk (a float that the engine never writes) and the
  fields of the engine that only serve the throughput monitor and the rate limiter
  (\<open>speed_limit\<close>, \<open>speed_history\<close>, \<open>last_downloaded\<close>, \<open>last_time\<close>) are left out:
  they influence how long a worker sleeps, never what it writes.
\<close>

record ChunkInfo =
  start :: int
  end_byte :: int
  downloaded :: int
  completed :: bool
  retries :: int
  thread_id :: "int option"

definition new_chunk :: "int \<Rightarrow> int \<Rightarrow> ChunkInfo" where
  "new_chunk s e =
     \<lparr>start = s, end_byte = e, downloaded = 0, completed = False, retries = 0,
      thread_id = None\<rparr>"

record ServerCapabilities =
  supports_range :: bool
  supports_resume :: bool
  supports_compression :: bool
  supports_http2 :: bool
  max_connections :: int
  content_encoding :: "string option"

definition default_capabilities :: ServerCapabilities where
  "default_capabilities =
     \<lparr>supports_range = False, supports_resume = False, supports_compression = False,
      supports_http2 = False, max_connections = 8, content_encoding = None\<rparr>"

subsection \<open>The sidecar file\<close>

text \<open>
  What \<open>load_metadata\<close> can find at the sidecar path: a file that cannot be opened or
  read (\<open>IOError\<close>), text that is not JSON (\<open>JSONDecodeError\<close>), JSON that is not an
  object, or a JSON object. Of an object the loader reads three keys. \<open>data.get('url')\<close>
  and \<open>data.get('total_size')\<close> are \<open>None\<close> here when the key is absent or holds a value
  of another type (either way the comparison with the engine's value is unequal);
  \<open>data['chunks']\<close> is absent (\<open>KeyError\<close>), a value from which \<open>ChunkInfo(**chunk)\<close>
  cannot be built (\<open>TypeError\<close>), or a list of chunk records.
\<close>

datatype chunks_field = Absent | Malformed | Entries "ChunkInfo list"

record DownloadMetadata =
  md_url :: "string option"
  md_filename :: string
  md_total_size :: "int option"
  md_chunks :: chunks_field
  md_created_at :: string
  md_supports_resume :: bool
  md_checksum :: "string option"
  md_mirrors :: "string list"

datatype sidecar = Unreadable | NotJson | NotObject | Object DownloadMetadata

subsection \<open>Observable effects\<close>

text \<open>
  The messages handed to \<open>status_callback\<close>, one constructor per format string of
  engine.py, carrying the values the string interpolates.
\<close>

datatype status =
    Detecting
  | ProbeDone bool int
  | ProbeFailed
  | MetadataMismatch
  | Resuming int
  | LoadFailed
  | ChunkFailed int
  | Retrying int nat nat nat
  | SaveFailed
  | Verifying
  | FileNotFound
  | SizeMismatch int int
  | Checksumming
  | VerifyDone string
  | PausedMsg
  | ResumedMsg
  | StoppingMsg

text \<open>
  The effects of the engine on the world, in the order they happen: status messages,
  GET requests with their \<open>Range\<close> header (\<open>None\<close>: no header), blocks written to the
  destination (file offset and length) and the seconds slept between two attempts.
\<close>

datatype effect =
    Status status
  | HttpGet string "(int \<times> int) option"
  | FileWrite int nat
  | Sleep nat

datatype session_state = NoSession | SessionOpen | SessionClosed

datatype error =
    ZeroDivisionError
  | AttributeError
  | TypeError
  | IndexError
  | RuntimeError
  | OSError
  | FileNotFoundError
  | PermissionError
  | UnboundLocalError

subsection \<open>The engine\<close>

text \<open>
  The fields of \<open>DownloadEngine.__init__\<close>, followed by the two files the engine owns
  (the destination with its bytes, the sidecar) and the log of effects.
\<close>

record DownloadEngine =
  url :: string
  output_path :: string
  num_threads :: int
  total_size :: int
  downloaded_size :: int
  chunks :: "ChunkInfo list"
  capabilities :: "ServerCapabilities option"
  mirrors :: "string list"
  current_mirror_index :: int
  is_paused :: bool
  is_stopped :: bool
  session :: session_state
  output_file :: "8 word list option"
  metadata_file :: "sidecar option"
  effects :: "effect list"

definition init :: "string \<Rightarrow> string \<Rightarrow> int \<Rightarrow> 8 word list option \<Rightarrow> sidecar option
    \<Rightarrow> DownloadEngine" where
  "init u path n dest side =
     \<lparr>url = u, output_path = path, num_threads = n, total_size = 0, downloaded_size = 0,
      chunks = [], capabilities = None, mirrors = [], current_mirror_index = 0,
      is_paused = False, is_stopped = False, session = NoSession,
      output_file = dest, metadata_file = side, effects = []\<rparr>"

definition update_status :: "status \<Rightarrow> DownloadEngine \<Rightarrow> DownloadEngine" where
  "update_status m e = e\<lparr>effects := effects e @ [Status m]\<rparr>"

definition is_running :: "DownloadEngine \<Rightarrow> bool" where
  "is_running e = (\<not> is_paused e \<and> \<not> is_stopped e)"

text \<open>
  A call either returns a value or raises; the engine state it leaves behind is kept in
  both cases.
\<close>

datatype 'a outcome = Return 'a | Raise error

section \<open>Capability prober\<close>

text \<open>
  \<open>int(s)\<close> on a header value: blanks around the number, an optional sign, decimal
  digits with single underscores between them. \<open>None\<close> is \<open>ValueError\<close>.
\<close>

definition is_digit :: "char \<Rightarrow> bool" where
  "is_digit c = (48 \<le> (of_char c :: nat) \<and> (of_char c :: nat) \<le> 57)"

definition is_space :: "char \<Rightarrow> bool" where
  "is_space c = ((of_char c :: nat) \<in> {9, 10, 11, 12, 13, 28, 29, 30, 31, 32})"

fun digits :: "nat \<Rightarrow> string \<Rightarrow> nat option" where
  "digits acc [] = Some acc"
| "digits acc (c # cs) =
     (if c = CHR ''_'' then
        (case cs of [] \<Rightarrow> None
         | d # _ \<Rightarrow> if is_digit d then digits acc cs else None)
      else if is_digit c then digits (10 * acc + (of_char c - 48)) cs
      else None)"

definition unsigned :: "string \<Rightarrow> nat option" where
  "unsigned s = (case s of [] \<Rightarrow> None | c # _ \<Rightarrow> if is_digit c then digits 0 s else None)"

definition strip :: "string \<Rightarrow> string" where
  "strip s = rev (dropWhile is_space (rev (dropWhile is_space s)))"

definition py_int :: "string \<Rightarrow> int option" where
  "py_int s =
     (case strip s of
        [] \<Rightarrow> None
      | c # cs \<Rightarrow>
          if c = CHR ''-'' then map_option (\<lambda>n. - int n) (unsigned cs)
          else if c = CHR ''+'' then map_option int (unsigned cs)
          else map_option int (unsigned (c # cs)))"

text \<open>\<open>s.split('/')[-1]\<close>: what follows the last slash, the whole string when there is none.\<close>

definition last_segment :: "string \<Rightarrow> string" where
  "last_segment s = rev (takeWhile (\<lambda>c. c \<noteq> CHR ''/'') (rev s))"

text \<open>
  The answer to the HEAD request: the request raises, or a response arrives with its
  headers (a dictionary from header names to values).
\<close>

datatype probe = HeadFailed | HeadResponse "string \<rightharpoonup> string"

text \<open>Lines 87 to 92: the size the headers announce; \<open>None\<close> when \<open>int\<close> raises.\<close>

definition announced_size :: "(string \<rightharpoonup> string) \<Rightarrow> int option" where
  "announced_size h =
     (case h ''Content-Range'' of
        Some v \<Rightarrow> py_int (last_segment v)
      | None \<Rightarrow>
          (case h ''Content-Length'' of
             Some v \<Rightarrow> py_int v
           | None \<Rightarrow> Some 0))"

definition probe_fallback :: "DownloadEngine \<Rightarrow> DownloadEngine" where
  "probe_fallback e = (update_status ProbeFailed e)\<lparr>capabilities := Some default_capabilities\<rparr>"

definition detect_capabilities :: "probe \<Rightarrow> DownloadEngine \<Rightarrow> DownloadEngine" where
  "detect_capabilities p e0 =
     (let e1 = update_status Detecting e0 in
      if session e1 \<noteq> SessionOpen then probe_fallback e1
      else
        (case p of
           HeadFailed \<Rightarrow> probe_fallback e1
         | HeadResponse h \<Rightarrow>
             (let caps = \<lparr>supports_range =
                            (h ''Accept-Ranges'' \<noteq> None \<and> h ''Accept-Ranges'' \<noteq> Some ''none''),
                          supports_resume = (h ''Accept-Ranges'' \<noteq> None),
                          supports_compression = False, supports_http2 = False,
                          max_connections = 8,
                          content_encoding = h ''Content-Encoding''\<rparr>;
                  e2 = e1\<lparr>capabilities := Some caps\<rparr>
              in case announced_size h of
                   None \<Rightarrow> probe_fallback e2
                 | Some n \<Rightarrow>
                     (let e3 = e2\<lparr>total_size := n\<rparr>;
                          e4 = (if \<not> supports_range caps then e3\<lparr>num_threads := 1\<rparr> else e3)
                      in update_status (ProbeDone (supports_range caps) n) e4))))"

definition initialize :: "probe \<Rightarrow> DownloadEngine \<Rightarrow> DownloadEngine" where
  "initialize p e = detect_capabilities p (e\<lparr>session := SessionOpen\<rparr>)"

section \<open>Resume metadata store\<close>

definition load_metadata :: "DownloadEngine \<Rightarrow> unit outcome \<times> DownloadEngine" where
  "load_metadata e =
     (case metadata_file e of
        None \<Rightarrow> (Return (), update_status LoadFailed e)
      | Some Unreadable \<Rightarrow>
          (Return (), (update_status LoadFailed e)\<lparr>metadata_file := None\<rparr>)
      | Some NotJson \<Rightarrow>
          (Return (), (update_status LoadFailed e)\<lparr>metadata_file := None\<rparr>)
      | Some NotObject \<Rightarrow> (Raise AttributeError, e)
      | Some (Object d) \<Rightarrow>
          if md_url d \<noteq> Some (url e) \<or> md_total_size d \<noteq> Some (total_size e) then
            (Return (), (update_status MetadataMismatch e)\<lparr>metadata_file := None\<rparr>)
          else
            (case md_chunks d of
               Absent \<Rightarrow> (Return (), (update_status LoadFailed e)\<lparr>metadata_file := None\<rparr>)
             | Malformed \<Rightarrow> (Raise TypeError, e)
             | Entries cs \<Rightarrow>
                 (let n = sum_list (map downloaded cs)
                  in (Return (),
                      update_status (Resuming n) (e\<lparr>chunks := cs, downloaded_size := n\<rparr>)))))"

definition save_metadata :: "string \<Rightarrow> bool \<Rightarrow> DownloadEngine \<Rightarrow> unit outcome \<times> DownloadEngine"
  where
  "save_metadata now writable e =
     (case capabilities e of
        None \<Rightarrow> (Raise AttributeError, e)
      | Some caps \<Rightarrow>
          if \<not> supports_resume caps then (Return (), e)
          else if \<not> writable then (Return (), update_status SaveFailed e)
          else
            (Return (),
             e\<lparr>metadata_file := Some (Object
                 \<lparr>md_url = Some (url e), md_filename = output_path e,
                  md_total_size = Some (total_size e), md_chunks = Entries (chunks e),
                  md_created_at = now, md_supports_resume = supports_resume caps,
                  md_checksum = None, md_mirrors = mirrors e\<rparr>)\<rparr>))"

section \<open>Chunk planner\<close>

text \<open>
  Lines 109 to 115: \<open>range(num_threads)\<close> is \<open>[0..num_threads - 1]\<close>, empty when
  \<open>num_threads \<le> 0\<close>; \<open>//\<close> is floor division, as \<open>div\<close> on \<open>int\<close>.
\<close>

definition plan_chunks :: "int \<Rightarrow> int \<Rightarrow> ChunkInfo list" where
  "plan_chunks tsize n =
     (let chunk_size = tsize div n
      in map (\<lambda>i. new_chunk (i * chunk_size)
                     (if i = n - 1 then tsize - 1 else i * chunk_size + chunk_size - 1))
           [0..n - 1])"

definition prepare_chunks :: "DownloadEngine \<Rightarrow> unit outcome \<times> DownloadEngine" where
  "prepare_chunks e =
     (if metadata_file e \<noteq> None then load_metadata e
      else
        (case capabilities e of
           None \<Rightarrow> (Raise AttributeError, e)
         | Some caps \<Rightarrow>
             if supports_range caps \<and> total_size e > 0 then
               (if num_threads e = 0 then (Raise ZeroDivisionError, e)
                else (Return (), e\<lparr>chunks := chunks e @ plan_chunks (total_size e) (num_threads e)\<rparr>))
             else
               (Return (),
                e\<lparr>chunks := chunks e @
                   [new_chunk 0 (if total_size e > 0 then total_size e - 1 else - 1)]\<rparr>)))"

section \<open>File preallocator\<close>

text \<open>
  Lines 126 to 129. Opening the destination for writing raises when its directory does
  not exist or is not writable (\<open>writable\<close> false); seeking to \<open>total_size - 1\<close> and writing
  one byte leaves a file of \<open>total_size\<close> zero bytes.
\<close>

definition preallocate :: "bool \<Rightarrow> DownloadEngine \<Rightarrow> unit outcome \<times> DownloadEngine" where
  "preallocate writable e =
     (if total_size e > 0 \<and> output_file e = None then
        (if \<not> writable then (Raise PermissionError, e)
         else (Return (), e\<lparr>output_file := Some (replicate (nat (total_size e)) 0)\<rparr>))
      else (Return (), e))"

section \<open>Control surface\<close>

datatype control = Pause | Resume | Stop

definition pause :: "DownloadEngine \<Rightarrow> DownloadEngine" where
  "pause e = update_status PausedMsg (e\<lparr>is_paused := True\<rparr>)"

definition resume :: "DownloadEngine \<Rightarrow> DownloadEngine" where
  "resume e = update_status ResumedMsg (e\<lparr>is_paused := False\<rparr>)"

definition stop :: "DownloadEngine \<Rightarrow> DownloadEngine" where
  "stop e = update_status StoppingMsg (e\<lparr>is_stopped := True\<rparr>)"

fun call :: "control \<Rightarrow> DownloadEngine \<Rightarrow> DownloadEngine" where
  "call Pause e = pause e"
| "call Resume e = resume e"
| "call Stop e = stop e"

section \<open>Claim protocol\<close>

text \<open>
  \<open>get_next_chunk\<close> returns a reference to an element of \<open>self.chunks\<close>; the model returns
  its index, and every later write to the chunk goes through the engine's vector.
\<close>

fun scan :: "nat \<Rightarrow> ChunkInfo list \<Rightarrow> nat option" where
  "scan k [] = None"
| "scan k (c # cs) =
     (if \<not> completed c \<and> thread_id c = None then Some k else scan (Suc k) cs)"

definition upd_chunk :: "nat \<Rightarrow> (ChunkInfo \<Rightarrow> ChunkInfo) \<Rightarrow> DownloadEngine \<Rightarrow> DownloadEngine"
  where
  "upd_chunk i f e = e\<lparr>chunks := (chunks e)[i := f (chunks e ! i)]\<rparr>"

definition get_next_chunk :: "int \<Rightarrow> DownloadEngine \<Rightarrow> nat option \<times> DownloadEngine" where
  "get_next_chunk worker_id e =
     (case scan 0 (chunks e) of
        None \<Rightarrow> (None, e)
      | Some i \<Rightarrow> (Some i, upd_chunk i (\<lambda>c. c\<lparr>thread_id := Some worker_id\<rparr>) e))"

section \<open>Chunk transfer and retry\<close>

text \<open>
  What the world does during one attempt: the GET raises a client or timeout error, or a
  response arrives with a status and a body. The body is the sequence of blocks that
  \<open>iter_chunked(8192)\<close> yields, interleaved with the calls of the control surface that
  land while the worker awaits the next block, and ends normally or with a client or
  timeout error. The second component of an attempt lists the calls that land during
  the backoff sleep when the attempt fails.
\<close>

datatype stream_item = Data "8 word list" | Call control

datatype stream_end = Eof | Broken

datatype response = RequestFailed | Response int "stream_item list" stream_end

datatype attempt = Attempt response "control list"

definition get_current_url :: "DownloadEngine \<Rightarrow> string outcome" where
  "get_current_url e =
     (let n = int (length (mirrors e)); k = current_mirror_index e
      in if mirrors e \<noteq> [] \<and> k < n then
           (if 0 \<le> k then Return (mirrors e ! nat k)
            else if - n \<le> k then Return (mirrors e ! nat (n + k))
            else Raise IndexError)
         else Return (url e))"

text \<open>Writing at a position past the end of the file fills the gap with zero bytes.\<close>

definition write_at :: "8 word list \<Rightarrow> nat \<Rightarrow> 8 word list \<Rightarrow> 8 word list" where
  "write_at f pos d =
     take pos f @ replicate (pos - length f) 0 @ d @ drop (pos + length d) f"

text \<open>Lines 185 to 187 (the progress callback only reads).\<close>

definition write_block :: "nat \<Rightarrow> nat \<Rightarrow> 8 word list \<Rightarrow> DownloadEngine \<Rightarrow> DownloadEngine" where
  "write_block i pos d e =
     (upd_chunk i (\<lambda>c. c\<lparr>downloaded := downloaded c + int (length d)\<rparr>) e)
       \<lparr>output_file := map_option (\<lambda>f. write_at f pos d) (output_file e),
        downloaded_size := downloaded_size e + int (length d),
        effects := effects e @ [FileWrite (int pos) (length d)]\<rparr>"

datatype body = StoppedEarly | StreamEof | StreamBroken

text \<open>Lines 179 to 190: the loop over the blocks of the body.\<close>

fun iter_chunked :: "nat \<Rightarrow> nat \<Rightarrow> stream_item list \<Rightarrow> stream_end \<Rightarrow> DownloadEngine
    \<Rightarrow> body \<times> DownloadEngine" where
  "iter_chunked i pos [] Eof e = (StreamEof, e)"
| "iter_chunked i pos [] Broken e = (StreamBroken, e)"
| "iter_chunked i pos (Call c # items) fin e = iter_chunked i pos items fin (call c e)"
| "iter_chunked i pos (Data d # items) fin e =
     (if is_stopped e then (StoppedEarly, e)
      else iter_chunked i (pos + length d) items fin (write_block i pos d e))"

text \<open>Lines 195 to 199: the handler of a client or timeout error.\<close>

definition backoff :: "nat \<Rightarrow> int \<Rightarrow> nat \<Rightarrow> nat \<Rightarrow> control list \<Rightarrow> DownloadEngine
    \<Rightarrow> DownloadEngine" where
  "backoff i worker_id a max_retries calls e =
     (let wait_time = min (2 ^ a) 30;
          e1 = upd_chunk i (\<lambda>c. c\<lparr>retries := retries c + 1\<rparr>) e;
          e2 = update_status (Retrying worker_id (a + 1) max_retries wait_time) e1;
          e3 = e2\<lparr>effects := effects e2 @ [Sleep wait_time]\<rparr>
      in fold call calls e3)"

datatype step = Done bool | Again | Failed error

text \<open>
  Lines 163 to 199: one pass of the retry loop. \<open>self.session.get\<close> raises outside the
  handled classes when there is no session or it is closed, opening the destination
  with \<open>'r+b'\<close> raises when the file does not exist, and \<open>f.seek\<close> raises on a negative
  offset. Lines 167 to 170 first: the range the pass asks for.
\<close>

definition request_range :: "bool \<Rightarrow> int \<Rightarrow> int \<Rightarrow> (int \<times> int) option" where
  "request_range ranged lo hi = (if ranged \<and> lo \<le> hi then Some (lo, hi) else None)"

text \<open>Lines 172 to 199: from the answer to the GET to the end of the pass.\<close>

definition receive :: "nat \<Rightarrow> int \<Rightarrow> nat \<Rightarrow> nat \<Rightarrow> attempt \<Rightarrow> DownloadEngine
    \<Rightarrow> step \<times> DownloadEngine" where
  "receive i worker_id a max_retries att e =
     (case att of Attempt resp calls \<Rightarrow>
        (case resp of
           RequestFailed \<Rightarrow> (Again, backoff i worker_id a max_retries calls e)
         | Response code items fin \<Rightarrow>
             (let pos = start (chunks e ! i) + downloaded (chunks e ! i)
              in if code \<noteq> 200 \<and> code \<noteq> 206 then
                   (Again, backoff i worker_id a max_retries calls e)
                 else if output_file e = None then (Failed FileNotFoundError, e)
                 else if pos < 0 then (Failed OSError, e)
                 else
                   (case iter_chunked i (nat pos) items fin e of
                      (StoppedEarly, e') \<Rightarrow> (Done False, e')
                    | (StreamBroken, e') \<Rightarrow>
                        (Again, backoff i worker_id a max_retries calls e')
                    | (StreamEof, e') \<Rightarrow>
                        (Done True, upd_chunk i (\<lambda>c. c\<lparr>completed := True\<rparr>) e')))))"

definition attempt_chunk :: "nat \<Rightarrow> int \<Rightarrow> nat \<Rightarrow> nat \<Rightarrow> attempt \<Rightarrow> DownloadEngine
    \<Rightarrow> step \<times> DownloadEngine" where
  "attempt_chunk i worker_id a max_retries att e =
     (if is_stopped e then (Done False, e)
      else
        (case get_current_url e of
           Raise x \<Rightarrow> (Failed x, e)
         | Return u \<Rightarrow>
             (case capabilities e of
                None \<Rightarrow> (Failed AttributeError, e)
              | Some caps \<Rightarrow>
                  (case session e of
                     NoSession \<Rightarrow> (Failed AttributeError, e)
                   | SessionClosed \<Rightarrow> (Failed RuntimeError, e)
                   | SessionOpen \<Rightarrow>
                       receive i worker_id a max_retries att
                         (e\<lparr>effects := effects e @
                            [HttpGet u (request_range (supports_range caps)
                               (start (chunks e ! i) + downloaded (chunks e ! i))
                               (end_byte (chunks e ! i)))]\<rparr>)))))"

text \<open>
  The loop \<open>for attempt in range(max_retries)\<close>: \<open>k\<close> passes are left, the next one is
  number \<open>a\<close>, and \<open>env a\<close> is what the world does during pass \<open>a\<close>.
\<close>

primrec attempts :: "nat \<Rightarrow> nat \<Rightarrow> nat \<Rightarrow> int \<Rightarrow> nat \<Rightarrow> (nat \<Rightarrow> attempt) \<Rightarrow> DownloadEngine
    \<Rightarrow> bool outcome \<times> DownloadEngine" where
  "attempts 0 a i worker_id max_retries env e = (Return False, e)"
| "attempts (Suc k) a i worker_id max_retries env e =
     (case attempt_chunk i worker_id a max_retries (env a) e of
        (Done b, e') \<Rightarrow> (Return b, e')
      | (Failed x, e') \<Rightarrow> (Raise x, e')
      | (Again, e') \<Rightarrow> attempts k (Suc a) i worker_id max_retries env e')"

definition download_chunk_with_retry :: "nat \<Rightarrow> int \<Rightarrow> nat \<Rightarrow> (nat \<Rightarrow> attempt)
    \<Rightarrow> DownloadEngine \<Rightarrow> bool outcome \<times> DownloadEngine" where
  "download_chunk_with_retry i worker_id max_retries env e =
     attempts max_retries 0 i worker_id max_retries env e"

section \<open>Verifier\<close>

text \<open>
  The digest is \<open>hashlib\<close>'s: \<open>hexdigest\<close> stands for SHA-256 of the whole file as a hex
  string, which feeding the file in blocks of 64 KiB computes.
\<close>

definition verify_download :: "(8 word list \<Rightarrow> string) \<Rightarrow> DownloadEngine \<Rightarrow> DownloadEngine" where
  "verify_download hexdigest e0 =
     (let e1 = update_status Verifying e0
      in case output_file e1 of
           None \<Rightarrow> update_status FileNotFound e1
         | Some bytes \<Rightarrow>
             (let actual_size = int (length bytes)
              in if total_size e1 > 0 \<and> actual_size \<noteq> total_size e1 then
                   update_status (SizeMismatch (total_size e1) actual_size) e1
                 else
                   (let e2 = update_status Checksumming e1;
                        checksum = hexdigest bytes;
                        e3 = update_status (VerifyDone (take 16 checksum)) e2
                    in e3\<lparr>metadata_file := None\<rparr>)))"

section \<open>Worker\<close>

text \<open>
  What the world does during one pass of a worker's loop: the calls of the control
  surface that land during each sleep of the pause loop, the attempts of the transfer,
  and the time and whether the sidecar can be written when the pass saves metadata.
\<close>

record pass =
  polls :: "control list list"
  transfer :: "nat \<Rightarrow> attempt"
  now :: string
  sidecar_writable :: bool

text \<open>Lines 146 to 148; \<open>None\<close>: still paused when the polls end.\<close>

fun pause_loop :: "control list list \<Rightarrow> DownloadEngine \<Rightarrow> bool option \<times> DownloadEngine" where
  "pause_loop ps e =
     (if \<not> is_paused e then (Some True, e)
      else case ps of
             [] \<Rightarrow> (None, e)
           | cs # rest \<Rightarrow>
               (let e' = fold call cs e
                in if is_stopped e' then (Some False, e') else pause_loop rest e'))"

text \<open>Lines 145 to 158; \<open>None\<close>: the worker is still running when the passes end.\<close>

fun download_worker :: "int \<Rightarrow> pass list \<Rightarrow> DownloadEngine
    \<Rightarrow> unit outcome option \<times> DownloadEngine" where
  "download_worker worker_id [] e =
     (if is_stopped e then (Some (Return ()), e) else (None, e))"
| "download_worker worker_id (p # ps) e =
     (if is_stopped e then (Some (Return ()), e)
      else
        (case pause_loop (polls p) e of
           (None, e1) \<Rightarrow> (None, e1)
         | (Some False, e1) \<Rightarrow> (Some (Return ()), e1)
         | (Some True, e1) \<Rightarrow>
             (case get_next_chunk worker_id e1 of
                (None, e2) \<Rightarrow> (Some (Return ()), e2)
              | (Some i, e2) \<Rightarrow>
                  (case download_chunk_with_retry i worker_id 5 (transfer p) e2 of
                     (Raise x, e3) \<Rightarrow> (Some (Raise x), e3)
                   | (Return True, e3) \<Rightarrow>
                       (case save_metadata (now p) (sidecar_writable p) e3 of
                          (Raise x, e4) \<Rightarrow> (Some (Raise x), e4)
                        | (Return u, e4) \<Rightarrow> download_worker worker_id ps e4)
                   | (Return False, e3) \<Rightarrow>
                       download_worker worker_id ps
                         (update_status (ChunkFailed worker_id) e3)))))"

section \<open>Orchestration\<close>

text \<open>
  The world of one call of \<open>download\<close>: the answer to the probe, whether the destination
  can be created, the digest function, and the pool. The pool stands for
  \<open>asyncio.gather\<close> over the worker tasks: how the event loop and the network interleave
  the workers is not fixed by the code, so the joint effect of the tasks on the engine is
  any function of the task list and the engine state.
\<close>

record world =
  probe_answer :: probe
  dest_writable :: bool
  pool :: "int list \<Rightarrow> DownloadEngine \<Rightarrow> unit outcome \<times> DownloadEngine"
  hexdigest :: "8 word list \<Rightarrow> string"

text \<open>The local variable \<open>monitor_task\<close> of \<open>download\<close>.\<close>

datatype monitor = Unbound | Running | Cancelled

text \<open>Line 131: one task per worker id in \<open>range(num_threads)\<close>.\<close>

definition worker_tasks :: "DownloadEngine \<Rightarrow> int list" where
  "worker_tasks e = [0..num_threads e - 1]"

text \<open>Lines 122 to 137: the body of the \<open>try\<close>.\<close>

definition download_try :: "world \<Rightarrow> DownloadEngine \<Rightarrow> unit outcome \<times> monitor \<times> DownloadEngine"
  where
  "download_try w e =
     (let e1 = initialize (probe_answer w) e
      in case prepare_chunks e1 of
           (Raise x, e2) \<Rightarrow> (Raise x, Unbound, e2)
         | (Return u, e2) \<Rightarrow>
             (case preallocate (dest_writable w) e2 of
                (Raise x, e3) \<Rightarrow> (Raise x, Unbound, e3)
              | (Return u, e3) \<Rightarrow>
                  (case pool w (worker_tasks e3) e3 of
                     (Raise x, e4) \<Rightarrow> (Raise x, Running, e4)
                   | (Return u, e4) \<Rightarrow>
                       (Return (), Running,
                        if \<not> is_stopped e4 then verify_download (hexdigest w) e4 else e4))))"

text \<open>
  Lines 138 to 141: the \<open>finally\<close> block. Reading the unbound \<open>monitor_task\<close> raises, which
  replaces the exception in flight and leaves the block before the session is closed.
\<close>

definition download_finally :: "unit outcome \<times> monitor \<times> DownloadEngine
    \<Rightarrow> unit outcome \<times> monitor \<times> DownloadEngine" where
  "download_finally r =
     (case r of (res, m, e) \<Rightarrow>
        if m = Unbound then (Raise UnboundLocalError, Unbound, e)
        else (res, Cancelled,
              if session e \<noteq> NoSession then e\<lparr>session := SessionClosed\<rparr> else e))"

definition download :: "world \<Rightarrow> DownloadEngine \<Rightarrow> unit outcome \<times> monitor \<times> DownloadEngine" where
  "download w e = download_finally (download_try w e)"

section \<open>Sessions\<close>

text \<open>
  The events of a session that write the engine state after the plan is made: a worker
  claims a chunk, a worker transfers a chunk, the sidecar is saved, a worker reports a
  failed chunk, the control surface is called. A session is any sequence of them, in the
  order the event loop runs them; \<open>claimed\<close> lists the chunks that the claims of a
  session return.
\<close>

datatype event =
    Claims int
  | Transfers nat int "nat \<Rightarrow> attempt"
  | Saves string bool
  | Reports int
  | Calls control

fun event_step :: "event \<Rightarrow> DownloadEngine \<Rightarrow> nat option \<times> DownloadEngine" where
  "event_step (Claims worker_id) e = get_next_chunk worker_id e"
| "event_step (Transfers i worker_id env) e =
     (None, snd (download_chunk_with_retry i worker_id 5 env e))"
| "event_step (Saves t ok) e = (None, snd (save_metadata t ok e))"
| "event_step (Reports worker_id) e = (None, update_status (ChunkFailed worker_id) e)"
| "event_step (Calls c) e = (None, call c e)"

fun claimed :: "event list \<Rightarrow> DownloadEngine \<Rightarrow> nat list" where
  "claimed [] e = []"
| "claimed (ev # evs) e =
     (case event_step ev e of
        (None, e') \<Rightarrow> claimed evs e'
      | (Some i, e') \<Rightarrow> i # claimed evs e')"

section \<open>Reading the effect log\<close>

text \<open>
  The bytes written, the requests and the seconds slept that a piece of the log records.
  A block is logged by \<open>write_block\<close> together with the advance of \<open>downloaded\<close>, so the
  bytes written in the first \<open>k\<close> effects of a transfer are the advance of \<open>downloaded\<close>
  at that point of the transfer.
\<close>

fun bytes :: "effect \<Rightarrow> int" where
  "bytes (FileWrite pos n) = int n"
| "bytes other = 0"

definition written :: "effect list \<Rightarrow> int" where
  "written es = sum_list (map bytes es)"

fun is_get :: "effect \<Rightarrow> bool" where
  "is_get (HttpGet u h) = True"
| "is_get other = False"

fun slept :: "effect \<Rightarrow> nat list" where
  "slept (Sleep s) = [s]"
| "slept other = []"

definition sleeps :: "effect list \<Rightarrow> nat list" where
  "sleeps es = concat (map slept es)"

text \<open>The message of a call of the control surface.\<close>

fun notice :: "control \<Rightarrow> effect" where
  "notice Pause = Status PausedMsg"
| "notice Resume = Status ResumedMsg"
| "notice Stop = Status StoppingMsg"

section \<open>Reading the world\<close>

text \<open>
  The bytes of a body; the bytes that an attempt serves (those of the body when the
  status is accepted); whether the GET raises or is answered by a status other than 200
  and 206; whether an accepted body ends normally.
\<close>

fun body_bytes :: "stream_item list \<Rightarrow> int" where
  "body_bytes [] = 0"
| "body_bytes (Data d # items) = int (length d) + body_bytes items"
| "body_bytes (Call c # items) = body_bytes items"

fun rejected :: "response \<Rightarrow> bool" where
  "rejected RequestFailed = True"
| "rejected (Response code items fin) = (code \<noteq> 200 \<and> code \<noteq> 206)"

fun served :: "attempt \<Rightarrow> int" where
  "served (Attempt RequestFailed calls) = 0"
| "served (Attempt (Response code items fin) calls) =
     (if code \<noteq> 200 \<and> code \<noteq> 206 then 0 else body_bytes items)"

fun ends_normally :: "attempt \<Rightarrow> bool" where
  "ends_normally (Attempt RequestFailed calls) = False"
| "ends_normally (Attempt (Response code items fin) calls) =
     ((code = 200 \<or> code = 206) \<and> fin = Eof)"

text \<open>
  A world that serves a chunk no more than the bytes it still misses: each of the next
  \<open>k\<close> attempts, from attempt \<open>a\<close> on, serves at most the \<open>missing\<close> bytes, all of them
  when its body ends normally, and what it serves is no longer missing afterwards.
\<close>

fun honoured :: "nat \<Rightarrow> nat \<Rightarrow> int \<Rightarrow> (nat \<Rightarrow> attempt) \<Rightarrow> bool" where
  "honoured 0 a missing env = True"
| "honoured (Suc k) a missing env =
     (served (env a) \<le> missing
      \<and> (if ends_normally (env a) then served (env a) = missing else True)
      \<and> honoured k (Suc a) (missing - served (env a)) env)"

text \<open>
  Every request of a piece of the log asks for the range from \<open>lo\<close>, moved on by the
  bytes that the log has written before the request, to \<open>hi\<close>.
\<close>

fun asks :: "bool \<Rightarrow> int \<Rightarrow> int \<Rightarrow> effect list \<Rightarrow> bool" where
  "asks ranged lo hi [] = True"
| "asks ranged lo hi (HttpGet u h # es) = (h = request_range ranged lo hi \<and> asks ranged lo hi es)"
| "asks ranged lo hi (FileWrite pos n # es) = asks ranged (lo + int n) hi es"
| "asks ranged lo hi (Status m # es) = asks ranged lo hi es"
| "asks ranged lo hi (Sleep t # es) = asks ranged lo hi es"

section \<open>What a transfer leaves alone\<close>

text \<open>
  The part of the engine state that no transfer, no save and no call of the control
  surface writes: the bounds and the claimant of every chunk, the capabilities, the
  session and the URLs.
\<close>

definition fixed :: "DownloadEngine \<Rightarrow>
    (int \<times> int \<times> int option) list \<times> ServerCapabilities option \<times> session_state \<times> string
      \<times> string list \<times> int" where
  "fixed e =
     (map (\<lambda>c. (start c, end_byte c, thread_id c)) (chunks e), capabilities e, session e,
      url e, mirrors e, current_mirror_index e)"

section \<open>Example inputs\<close>

text \<open>A server that accepts byte ranges and announces a length.\<close>

definition ranged_server :: "string \<Rightarrow> probe" where
  "ranged_server n = HeadResponse [''Accept-Ranges'' \<mapsto> ''bytes'', ''Content-Length'' \<mapsto> n]"

text \<open>A sidecar left by a download from another URL.\<close>

definition stale_metadata :: DownloadMetadata where
  "stale_metadata =
     \<lparr>md_url = Some ''http://t/old'', md_filename = ''f.bin'', md_total_size = Some 1000,
      md_chunks = Entries [], md_created_at = ''2024-01-01T00:00:00'',
      md_supports_resume = True, md_checksum = None, md_mirrors = []\<rparr>"

text \<open>
  The engine of a download from a ranged server with \<open>w\<close> workers, after the probe, the
  plan and the preallocation.
\<close>

definition started :: "string \<Rightarrow> int \<Rightarrow> DownloadEngine" where
  "started n w =
     snd (preallocate True (snd (prepare_chunks
       (initialize (ranged_server n) (init ''http://t/f'' ''f.bin'' w None None)))))"

text \<open>
  The same engine after worker 0 has claimed its first chunk, and the engine of a
  download of unknown length from a server without ranges, into an existing empty file,
  after worker 0 has claimed the single chunk from 0 to -1.
\<close>

definition claimed_first :: "string \<Rightarrow> int \<Rightarrow> DownloadEngine" where
  "claimed_first n w = snd (get_next_chunk 0 (started n w))"

definition streaming :: DownloadEngine where
  "streaming =
     snd (get_next_chunk 0 (snd (prepare_chunks
       (initialize (HeadResponse Map.empty) (init ''http://t/f'' ''f.bin'' 1 (Some []) None)))))"

text \<open>
  A world for a chunk of eight bytes: a 503, then a 206 whose body breaks after four
  bytes, then a 200 with the four bytes that are missing.
\<close>

definition flaky :: "nat \<Rightarrow> attempt" where
  "flaky a =
     (if a = 0 then Attempt (Response 503 [] Eof) []
      else if a = 1 then Attempt (Response 206 [Data [1, 2, 3, 4]] Broken) []
      else if a = 2 then Attempt (Response 200 [Data [5, 6, 7, 8]] Eof) []
      else Attempt RequestFailed [])"

section \<open>Evaluation\<close>

lemmas probe_defs =
  initialize_def detect_capabilities_def probe_fallback_def announced_size_def py_int_def
  strip_def is_space_def unsigned_def is_digit_def last_segment_def init_def
  update_status_def default_capabilities_def ranged_server_def

lemmas plan_defs =
  prepare_chunks_def load_metadata_def plan_chunks_def new_chunk_def upto.simps

lemmas transfer_defs =
  download_chunk_with_retry_def attempt_chunk_def receive_def backoff_def get_current_url_def
  request_range_def write_block_def upd_chunk_def write_at_def pause_def resume_def stop_def
  get_next_chunk_def preallocate_def started_def save_metadata_def claimed_first_def
  streaming_def flaky_def

section \<open>Frame lemmas\<close>

lemma map_update_same:
  assumes "g (f (xs ! i)) = g (xs ! i)"
  shows "map g (xs[i := f (xs ! i)]) = map g xs"
proof (rule nth_equalityI)
  show "length (map g (xs[i := f (xs ! i)])) = length (map g xs)"
    by simp
next
  fix j
  assume "j < length (map g (xs[i := f (xs ! i)]))"
  then have j: "j < length xs"
    by simp
  show "map g (xs[i := f (xs ! i)]) ! j = map g xs ! j"
  proof (cases "i = j")
    case True
    with j assms show ?thesis by simp
  next
    case False
    with j show ?thesis by simp
  qed
qed

lemma fixed_upd_chunk:
  assumes "\<And>c. start (f c) = start c" "\<And>c. end_byte (f c) = end_byte c"
    "\<And>c. thread_id (f c) = thread_id c"
  shows "fixed (upd_chunk i f e) = fixed e"
  using assms by (simp add: fixed_def upd_chunk_def map_update_same)

lemma fixed_call [simp]: "fixed (call c e) = fixed e"
  by (cases c) (simp_all add: fixed_def pause_def resume_def stop_def update_status_def)

lemma fixed_fold_call [simp]: "fixed (fold call cs e) = fixed e"
  by (induction cs arbitrary: e) simp_all

lemma fixed_effects [simp]: "fixed (e\<lparr>effects := x\<rparr>) = fixed e"
  by (simp add: fixed_def)

lemma fixed_update_status [simp]: "fixed (update_status m e) = fixed e"
  by (simp add: fixed_def update_status_def)

lemma fixed_write_block [simp]: "fixed (write_block i pos d e) = fixed e"
proof -
  have "fixed (upd_chunk i (\<lambda>c. c\<lparr>downloaded := downloaded c + int (length d)\<rparr>) e) = fixed e"
    by (rule fixed_upd_chunk) simp_all
  then show ?thesis
    by (simp add: write_block_def fixed_def)
qed

lemma fixed_iter_chunked: "iter_chunked i pos items fin e = (b, e') \<Longrightarrow> fixed e' = fixed e"
  by (induction i pos items fin e rule: iter_chunked.induct) (auto split: if_splits)

lemma fixed_backoff [simp]: "fixed (backoff i w a mx calls e) = fixed e"
proof -
  have "fixed (upd_chunk i (\<lambda>c. c\<lparr>retries := retries c + 1\<rparr>) e) = fixed e"
    by (rule fixed_upd_chunk) simp_all
  then show ?thesis
    by (simp add: backoff_def Let_def)
qed

lemma fixed_completed [simp]: "fixed (upd_chunk i (\<lambda>c. c\<lparr>completed := True\<rparr>) e) = fixed e"
  by (rule fixed_upd_chunk) simp_all

lemma fixed_receive: "receive i w a mx att e = (st, e') \<Longrightarrow> fixed e' = fixed e"
  by (auto simp add: receive_def Let_def
      split: attempt.splits response.splits if_splits prod.splits body.splits
      dest: fixed_iter_chunked)

lemma fixed_attempt_chunk: "attempt_chunk i w a mx att e = (st, e') \<Longrightarrow> fixed e' = fixed e"
  by (auto simp add: attempt_chunk_def
      split: if_splits outcome.splits option.splits session_state.splits
      dest: fixed_receive)

text \<open>A preorder on engine states that every pass of the retry loop respects, the loop respects.\<close>

lemma attempts_preserve:
  assumes run: "attempts k a i w mx env e = (r, e')"
    and pass: "\<And>a e st e1. attempt_chunk i w a mx (env a) e = (st, e1) \<Longrightarrow> R e e1"
    and refl: "\<And>e. R e e"
    and trans: "\<And>x y z. R x y \<Longrightarrow> R y z \<Longrightarrow> R x z"
  shows "R e e'"
  using run
proof (induction k arbitrary: a e)
  case 0
  then show ?case by (simp add: refl)
next
  case (Suc k)
  obtain st e1 where one: "attempt_chunk i w a mx (env a) e = (st, e1)"
    by (cases "attempt_chunk i w a mx (env a) e")
  then have first: "R e e1"
    by (rule pass)
  show ?case
  proof (cases st)
    case (Done b)
    with Suc.prems one first show ?thesis by simp
  next
    case Again
    with Suc.prems one have "attempts k (Suc a) i w mx env e1 = (r, e')"
      by simp
    then have "R e1 e'"
      by (rule Suc.IH)
    with first show ?thesis
      by (rule trans)
  next
    case (Failed x)
    with Suc.prems one first show ?thesis by simp
  qed
qed

lemma fixed_download_chunk_with_retry:
  assumes "download_chunk_with_retry i w mx env e = (r, e')"
  shows "fixed e' = fixed e"
proof -
  from assms have "attempts mx 0 i w mx env e = (r, e')"
    by (simp add: download_chunk_with_retry_def)
  then show ?thesis
    by (rule attempts_preserve [where R = "\<lambda>x y. fixed y = fixed x"])
      (auto dest: fixed_attempt_chunk)
qed

lemma fixed_save_metadata: "save_metadata t ok e = (r, e') \<Longrightarrow> fixed e' = fixed e"
  by (auto simp add: save_metadata_def fixed_def update_status_def split: option.splits if_splits)

lemma fixed_chunk:
  assumes "fixed e' = fixed e"
  shows "length (chunks e') = length (chunks e)"
    and "j < length (chunks e) \<Longrightarrow> thread_id (chunks e' ! j) = thread_id (chunks e ! j)"
    and "j < length (chunks e) \<Longrightarrow> start (chunks e' ! j) = start (chunks e ! j)"
    and "j < length (chunks e) \<Longrightarrow> end_byte (chunks e' ! j) = end_byte (chunks e ! j)"
proof -
  from assms have m: "map (\<lambda>c. (start c, end_byte c, thread_id c)) (chunks e')
      = map (\<lambda>c. (start c, end_byte c, thread_id c)) (chunks e)"
    by (simp add: fixed_def)
  then show len: "length (chunks e') = length (chunks e)"
    by (rule map_eq_imp_length_eq)
  assume j: "j < length (chunks e)"
  from m have "map (\<lambda>c. (start c, end_byte c, thread_id c)) (chunks e') ! j
      = map (\<lambda>c. (start c, end_byte c, thread_id c)) (chunks e) ! j"
    by simp
  with j len have "(\<lambda>c. (start c, end_byte c, thread_id c)) (chunks e' ! j)
      = (\<lambda>c. (start c, end_byte c, thread_id c)) (chunks e ! j)"
    by simp
  then show "thread_id (chunks e' ! j) = thread_id (chunks e ! j)"
    and "start (chunks e' ! j) = start (chunks e ! j)"
    and "end_byte (chunks e' ! j) = end_byte (chunks e ! j)"
    by simp_all
qed

lemma fixed_keeps_claim:
  assumes "fixed e' = fixed e" "i < length (chunks e)" "thread_id (chunks e ! i) \<noteq> None"
  shows "i < length (chunks e') \<and> thread_id (chunks e' ! i) \<noteq> None"
  using assms fixed_chunk(1) [of e' e] fixed_chunk(2) [of e' e i]
  by simp

section \<open>The log of a transfer\<close>

lemma written_simps [simp]:
  "written [] = 0"
  "written (x # xs) = bytes x + written xs"
  "written (xs @ ys) = written xs + written ys"
  by (simp_all add: written_def)

lemma sleeps_simps [simp]:
  "sleeps [] = []"
  "sleeps (x # xs) = slept x @ sleeps xs"
  "sleeps (xs @ ys) = sleeps xs @ sleeps ys"
  by (simp_all add: sleeps_def)

lemma bytes_nonneg: "0 \<le> bytes x"
  by (cases x) simp_all

lemma written_nonneg: "0 \<le> written es"
  by (induction es) (simp_all add: bytes_nonneg)

lemma body_bytes_nonneg: "0 \<le> body_bytes items"
  by (induction items rule: body_bytes.induct) simp_all

lemma written_take: "written (take k es) \<le> written es"
proof -
  have "written es = written (take k es) + written (drop k es)"
    by (metis append_take_drop_id written_simps(3))
  with written_nonneg [of "drop k es"] show ?thesis
    by simp
qed

lemma written_take_Suc: "written (take k es) \<le> written (take (Suc k) es)"
proof -
  have "take k (take (Suc k) es) = take k es"
    by (simp add: min_def)
  with written_take [of k "take (Suc k) es"] show ?thesis
    by simp
qed

lemma call_log: "effects (call c e) = effects e @ [notice c]"
  by (cases c) (simp_all add: pause_def resume_def stop_def update_status_def)

lemma call_chunks [simp]: "chunks (call c e) = chunks e"
  by (cases c) (simp_all add: pause_def resume_def stop_def update_status_def)

lemma fold_call_log: "effects (fold call cs e) = effects e @ map notice cs"
  by (induction cs arbitrary: e) (simp_all add: call_log)

lemma fold_call_chunks [simp]: "chunks (fold call cs e) = chunks e"
  by (induction cs arbitrary: e) simp_all

lemma notices_quiet [simp]:
  "written (map notice cs) = 0" "filter is_get (map notice cs) = []" "sleeps (map notice cs) = []"
proof -
  have q: "bytes (notice c) = 0 \<and> \<not> is_get (notice c) \<and> slept (notice c) = []" for c
    by (cases c) simp_all
  show "written (map notice cs) = 0" "filter is_get (map notice cs) = []"
    "sleeps (map notice cs) = []"
    by (induction cs) (simp_all add: q)
qed

text \<open>The loop over the blocks.\<close>

lemma iter_chunked_trace:
  assumes "iter_chunked i pos items fin e = (b, e1)" "i < length (chunks e)"
  shows "\<exists>new. effects e1 = effects e @ new
     \<and> downloaded (chunks e1 ! i) = downloaded (chunks e ! i) + written new
     \<and> retries (chunks e1 ! i) = retries (chunks e ! i)
     \<and> completed (chunks e1 ! i) = completed (chunks e ! i)
     \<and> filter is_get new = [] \<and> sleeps new = []
     \<and> written new \<le> body_bytes items
     \<and> (b \<noteq> StoppedEarly \<longrightarrow> written new = body_bytes items)
     \<and> (b = StreamEof \<longrightarrow> fin = Eof) \<and> (b = StreamBroken \<longrightarrow> fin = Broken)"
  using assms
proof (induction i pos items fin e arbitrary: b e1 rule: iter_chunked.induct)
  case (1 i pos e)
  then show ?case by simp
next
  case (2 i pos e)
  then show ?case by simp
next
  case (3 i pos c items fin e)
  from "3.prems" have run: "iter_chunked i pos items fin (call c e) = (b, e1)"
    and len: "i < length (chunks (call c e))"
    by simp_all
  from "3.IH" [OF run len] obtain new where new:
    "effects e1 = effects (call c e) @ new"
    "downloaded (chunks e1 ! i) = downloaded (chunks e ! i) + written new"
    "retries (chunks e1 ! i) = retries (chunks e ! i)"
    "completed (chunks e1 ! i) = completed (chunks e ! i)"
    "filter is_get new = []" "sleeps new = []"
    "written new \<le> body_bytes items"
    "b \<noteq> StoppedEarly \<longrightarrow> written new = body_bytes items"
    "b = StreamEof \<longrightarrow> fin = Eof" "b = StreamBroken \<longrightarrow> fin = Broken"
    by auto
  have quiet: "bytes (notice c) = 0 \<and> \<not> is_get (notice c) \<and> slept (notice c) = []"
    by (cases c) simp_all
  from new quiet have "effects e1 = effects e @ (notice c # new)
     \<and> downloaded (chunks e1 ! i) = downloaded (chunks e ! i) + written (notice c # new)
     \<and> retries (chunks e1 ! i) = retries (chunks e ! i)
     \<and> completed (chunks e1 ! i) = completed (chunks e ! i)
     \<and> filter is_get (notice c # new) = [] \<and> sleeps (notice c # new) = []
     \<and> written (notice c # new) \<le> body_bytes (Call c # items)
     \<and> (b \<noteq> StoppedEarly \<longrightarrow> written (notice c # new) = body_bytes (Call c # items))
     \<and> (b = StreamEof \<longrightarrow> fin = Eof) \<and> (b = StreamBroken \<longrightarrow> fin = Broken)"
    by (simp add: call_log)
  then show ?case
    by blast
next
  case (4 i pos d items fin e)
  show ?case
  proof (cases "is_stopped e")
    case True
    with "4.prems" have "b = StoppedEarly" "e1 = e"
      by simp_all
    then have "effects e1 = effects e @ []
     \<and> downloaded (chunks e1 ! i) = downloaded (chunks e ! i) + written []
     \<and> retries (chunks e1 ! i) = retries (chunks e ! i)
     \<and> completed (chunks e1 ! i) = completed (chunks e ! i)
     \<and> filter is_get [] = [] \<and> sleeps [] = []
     \<and> written [] \<le> body_bytes (Data d # items)
     \<and> (b \<noteq> StoppedEarly \<longrightarrow> written [] = body_bytes (Data d # items))
     \<and> (b = StreamEof \<longrightarrow> fin = Eof) \<and> (b = StreamBroken \<longrightarrow> fin = Broken)"
      using body_bytes_nonneg [of items] by simp
    then show ?thesis
      by blast
  next
    case False
    let ?e = "write_block i pos d e"
    from False "4.prems" have run: "iter_chunked i (pos + length d) items fin ?e = (b, e1)"
      and len: "i < length (chunks ?e)"
      by (simp_all add: write_block_def upd_chunk_def)
    from "4.IH" [OF False run len] obtain new where new:
      "effects e1 = effects ?e @ new"
      "downloaded (chunks e1 ! i) = downloaded (chunks ?e ! i) + written new"
      "retries (chunks e1 ! i) = retries (chunks ?e ! i)"
      "completed (chunks e1 ! i) = completed (chunks ?e ! i)"
      "filter is_get new = []" "sleeps new = []"
      "written new \<le> body_bytes items"
      "b \<noteq> StoppedEarly \<longrightarrow> written new = body_bytes items"
      "b = StreamEof \<longrightarrow> fin = Eof" "b = StreamBroken \<longrightarrow> fin = Broken"
      by auto
    from "4.prems"(2) have blk: "effects ?e = effects e @ [FileWrite (int pos) (length d)]"
      "downloaded (chunks ?e ! i) = downloaded (chunks e ! i) + int (length d)"
      "retries (chunks ?e ! i) = retries (chunks e ! i)"
      "completed (chunks ?e ! i) = completed (chunks e ! i)"
      by (simp_all add: write_block_def upd_chunk_def)
    from new blk have "effects e1 = effects e @ (FileWrite (int pos) (length d) # new)
     \<and> downloaded (chunks e1 ! i)
         = downloaded (chunks e ! i) + written (FileWrite (int pos) (length d) # new)
     \<and> retries (chunks e1 ! i) = retries (chunks e ! i)
     \<and> completed (chunks e1 ! i) = completed (chunks e ! i)
     \<and> filter is_get (FileWrite (int pos) (length d) # new) = []
     \<and> sleeps (FileWrite (int pos) (length d) # new) = []
     \<and> written (FileWrite (int pos) (length d) # new) \<le> body_bytes (Data d # items)
     \<and> (b \<noteq> StoppedEarly \<longrightarrow>
          written (FileWrite (int pos) (length d) # new) = body_bytes (Data d # items))
     \<and> (b = StreamEof \<longrightarrow> fin = Eof) \<and> (b = StreamBroken \<longrightarrow> fin = Broken)"
      by simp
    then show ?thesis
      by blast
  qed
qed

lemma asks_append:
  "asks r lo hi (xs @ ys) = (asks r lo hi xs \<and> asks r (lo + written xs) hi ys)"
proof (induction xs arbitrary: lo)
  case Nil
  show ?case by simp
next
  case (Cons x xs)
  show ?case
    by (cases x) (simp_all add: Cons.IH add.assoc)
qed

lemma asks_quiet: "filter is_get es = [] \<Longrightarrow> asks r lo hi es"
proof (induction es arbitrary: lo)
  case Nil
  show ?case by simp
next
  case (Cons x es)
  then show ?case
    by (cases x) (simp_all split: if_splits)
qed


lemma backoff_trace:
  assumes "i < length (chunks e)"
  shows "effects (backoff i w a mx calls e)
      = effects e @ [Status (Retrying w (a + 1) mx (min (2 ^ a) 30)), Sleep (min (2 ^ a) 30)]
          @ map notice calls"
    and "chunks (backoff i w a mx calls e) ! i = (chunks e ! i)\<lparr>retries := retries (chunks e ! i) + 1\<rparr>"
  using assms
  by (simp_all add: backoff_def Let_def fold_call_log update_status_def upd_chunk_def)

lemma receive_trace:
  assumes run: "receive i w a mx att e = (st, e1)" and len: "i < length (chunks e)"
  shows "\<exists>new. effects e1 = effects e @ new
     \<and> downloaded (chunks e1 ! i) = downloaded (chunks e ! i) + written new
     \<and> filter is_get new = []
     \<and> sleeps new = (if st = Again then [min (2 ^ a) 30] else [])
     \<and> retries (chunks e1 ! i) = retries (chunks e ! i) + (if st = Again then 1 else 0)
     \<and> completed (chunks e1 ! i) = (completed (chunks e ! i) \<or> st = Done True)
     \<and> written new \<le> served att
     \<and> (st = Again \<or> st = Done True \<longrightarrow> written new = served att)
     \<and> (st = Done True \<longrightarrow> ends_normally att)"
proof (cases att)
  case (Attempt resp calls)
  let ?retry = "[Status (Retrying w (a + 1) mx (min (2 ^ a) 30)), Sleep (min (2 ^ a) 30)]
      @ map notice calls"
  have retry: "written ?retry = 0" "filter is_get ?retry = []" "sleeps ?retry = [min (2 ^ a) 30]"
    by simp_all
  show ?thesis
  proof (cases "rejected resp")
    case True
    with run Attempt have st: "st = Again" and e1: "e1 = backoff i w a mx calls e"
      by (cases resp; simp add: receive_def Let_def)+
    from True Attempt have zero: "served att = 0"
      by (cases resp) simp_all
    from backoff_trace [OF len, of w a mx calls] st e1 retry zero
    have "effects e1 = effects e @ ?retry
     \<and> downloaded (chunks e1 ! i) = downloaded (chunks e ! i) + written ?retry
     \<and> filter is_get ?retry = []
     \<and> sleeps ?retry = (if st = Again then [min (2 ^ a) 30] else [])
     \<and> retries (chunks e1 ! i) = retries (chunks e ! i) + (if st = Again then 1 else 0)
     \<and> completed (chunks e1 ! i) = (completed (chunks e ! i) \<or> st = Done True)
     \<and> written ?retry \<le> served att
     \<and> (st = Again \<or> st = Done True \<longrightarrow> written ?retry = served att)
     \<and> (st = Done True \<longrightarrow> ends_normally att)"
      by simp
    then show ?thesis
      by blast
  next
    case False
    then obtain code items fin where resp: "resp = Response code items fin"
      and ok: "code = 200 \<or> code = 206"
      by (cases resp) auto
    from resp ok Attempt have srv: "served att = body_bytes items"
      and norm: "ends_normally att = (fin = Eof)"
      by auto
    let ?pos = "start (chunks e ! i) + downloaded (chunks e ! i)"
    show ?thesis
    proof (cases "output_file e = None \<or> ?pos < 0")
      case True
      with run Attempt resp ok have "e1 = e" "st \<noteq> Again" "st \<noteq> Done True"
        by (auto simp add: receive_def Let_def split: if_splits)
      with srv body_bytes_nonneg [of items]
      have "effects e1 = effects e @ []
       \<and> downloaded (chunks e1 ! i) = downloaded (chunks e ! i) + written []
       \<and> filter is_get [] = []
       \<and> sleeps [] = (if st = Again then [min (2 ^ a) 30] else [])
       \<and> retries (chunks e1 ! i) = retries (chunks e ! i) + (if st = Again then 1 else 0)
       \<and> completed (chunks e1 ! i) = (completed (chunks e ! i) \<or> st = Done True)
       \<and> written [] \<le> served att
       \<and> (st = Again \<or> st = Done True \<longrightarrow> written [] = served att)
       \<and> (st = Done True \<longrightarrow> ends_normally att)"
        by simp
      then show ?thesis
        by blast
    next
      case False
      obtain b e2 where body: "iter_chunked i (nat ?pos) items fin e = (b, e2)"
        by (cases "iter_chunked i (nat ?pos) items fin e")
      from iter_chunked_trace [OF body len] obtain new where new:
        "effects e2 = effects e @ new"
        "downloaded (chunks e2 ! i) = downloaded (chunks e ! i) + written new"
        "retries (chunks e2 ! i) = retries (chunks e ! i)"
        "completed (chunks e2 ! i) = completed (chunks e ! i)"
        "filter is_get new = []" "sleeps new = []"
        "written new \<le> body_bytes items"
        "b \<noteq> StoppedEarly \<longrightarrow> written new = body_bytes items"
        "b = StreamEof \<longrightarrow> fin = Eof" "b = StreamBroken \<longrightarrow> fin = Broken"
        by auto
      from fixed_iter_chunked [OF body] have len2: "i < length (chunks e2)"
        using len fixed_chunk(1) [of e2 e] by simp
      show ?thesis
      proof (cases b)
        case StoppedEarly
        with run Attempt resp ok False body have "st = Done False" "e1 = e2"
          by (auto simp add: receive_def Let_def)
        with new srv have "effects e1 = effects e @ new
         \<and> downloaded (chunks e1 ! i) = downloaded (chunks e ! i) + written new
         \<and> filter is_get new = []
         \<and> sleeps new = (if st = Again then [min (2 ^ a) 30] else [])
         \<and> retries (chunks e1 ! i) = retries (chunks e ! i) + (if st = Again then 1 else 0)
         \<and> completed (chunks e1 ! i) = (completed (chunks e ! i) \<or> st = Done True)
         \<and> written new \<le> served att
         \<and> (st = Again \<or> st = Done True \<longrightarrow> written new = served att)
         \<and> (st = Done True \<longrightarrow> ends_normally att)"
          by simp
        then show ?thesis
          by blast
      next
        case StreamEof
        with run Attempt resp ok False body have "st = Done True"
          "e1 = upd_chunk i (\<lambda>c. c\<lparr>completed := True\<rparr>) e2"
          by (auto simp add: receive_def Let_def)
        with new srv norm len2 StreamEof have "effects e1 = effects e @ new
         \<and> downloaded (chunks e1 ! i) = downloaded (chunks e ! i) + written new
         \<and> filter is_get new = []
         \<and> sleeps new = (if st = Again then [min (2 ^ a) 30] else [])
         \<and> retries (chunks e1 ! i) = retries (chunks e ! i) + (if st = Again then 1 else 0)
         \<and> completed (chunks e1 ! i) = (completed (chunks e ! i) \<or> st = Done True)
         \<and> written new \<le> served att
         \<and> (st = Again \<or> st = Done True \<longrightarrow> written new = served att)
         \<and> (st = Done True \<longrightarrow> ends_normally att)"
          by (simp add: upd_chunk_def)
        then show ?thesis
          by blast
      next
        case StreamBroken
        with run Attempt resp ok False body have st: "st = Again"
          and e1: "e1 = backoff i w a mx calls e2"
          by (auto simp add: receive_def Let_def)
        from backoff_trace [OF len2, of w a mx calls] st e1 retry new srv StreamBroken
        have "effects e1 = effects e @ (new @ ?retry)
         \<and> downloaded (chunks e1 ! i) = downloaded (chunks e ! i) + written (new @ ?retry)
         \<and> filter is_get (new @ ?retry) = []
         \<and> sleeps (new @ ?retry) = (if st = Again then [min (2 ^ a) 30] else [])
         \<and> retries (chunks e1 ! i) = retries (chunks e ! i) + (if st = Again then 1 else 0)
         \<and> completed (chunks e1 ! i) = (completed (chunks e ! i) \<or> st = Done True)
         \<and> written (new @ ?retry) \<le> served att
         \<and> (st = Again \<or> st = Done True \<longrightarrow> written (new @ ?retry) = served att)
         \<and> (st = Done True \<longrightarrow> ends_normally att)"
          by simp
        then show ?thesis
          by blast
      qed
    qed
  qed
qed

lemma attempt_chunk_trace:
  assumes run: "attempt_chunk i w a mx att e = (st, e1)" and len: "i < length (chunks e)"
  shows "\<exists>new. effects e1 = effects e @ new
     \<and> downloaded (chunks e1 ! i) = downloaded (chunks e ! i) + written new
     \<and> length (filter is_get new) \<le> 1
     \<and> (\<forall>caps. capabilities e = Some caps \<longrightarrow>
          asks (supports_range caps) (start (chunks e ! i) + downloaded (chunks e ! i))
            (end_byte (chunks e ! i)) new)
     \<and> sleeps new = (if st = Again then [min (2 ^ a) 30] else [])
     \<and> retries (chunks e1 ! i) = retries (chunks e ! i) + (if st = Again then 1 else 0)
     \<and> completed (chunks e1 ! i) = (completed (chunks e ! i) \<or> st = Done True)
     \<and> written new \<le> served att
     \<and> (st = Again \<or> st = Done True \<longrightarrow> written new = served att)
     \<and> (st = Done True \<longrightarrow> ends_normally att)"
proof -
  let ?lo = "start (chunks e ! i) + downloaded (chunks e ! i)"
  let ?hi = "end_byte (chunks e ! i)"
  consider (early) "e1 = e" "st \<noteq> Again" "st \<noteq> Done True"
    | (sent) u caps where "capabilities e = Some caps"
        "receive i w a mx att
           (e\<lparr>effects := effects e @ [HttpGet u (request_range (supports_range caps) ?lo ?hi)]\<rparr>)
         = (st, e1)"
    using run
    by (auto simp add: attempt_chunk_def
        split: if_splits outcome.splits option.splits session_state.splits)
  then show ?thesis
  proof cases
    case early
    have "0 \<le> served att"
      by (cases att rule: served.cases) (simp_all add: body_bytes_nonneg)
    with early have "effects e1 = effects e @ []
     \<and> downloaded (chunks e1 ! i) = downloaded (chunks e ! i) + written []
     \<and> length (filter is_get []) \<le> 1
     \<and> (\<forall>caps. capabilities e = Some caps \<longrightarrow> asks (supports_range caps) ?lo ?hi [])
     \<and> sleeps [] = (if st = Again then [min (2 ^ a) 30] else [])
     \<and> retries (chunks e1 ! i) = retries (chunks e ! i) + (if st = Again then 1 else 0)
     \<and> completed (chunks e1 ! i) = (completed (chunks e ! i) \<or> st = Done True)
     \<and> written [] \<le> served att
     \<and> (st = Again \<or> st = Done True \<longrightarrow> written [] = served att)
     \<and> (st = Done True \<longrightarrow> ends_normally att)"
      by simp
    then show ?thesis
      by blast
  next
    case (sent u caps)
    let ?get = "HttpGet u (request_range (supports_range caps) ?lo ?hi)"
    let ?e = "e\<lparr>effects := effects e @ [?get]\<rparr>"
    from len have len': "i < length (chunks ?e)"
      by simp
    from receive_trace [OF sent(2) len'] obtain new where new:
      "effects e1 = effects ?e @ new"
      "downloaded (chunks e1 ! i) = downloaded (chunks e ! i) + written new"
      "filter is_get new = []"
      "sleeps new = (if st = Again then [min (2 ^ a) 30] else [])"
      "retries (chunks e1 ! i) = retries (chunks e ! i) + (if st = Again then 1 else 0)"
      "completed (chunks e1 ! i) = (completed (chunks e ! i) \<or> st = Done True)"
      "written new \<le> served att"
      "st = Again \<or> st = Done True \<longrightarrow> written new = served att"
      "st = Done True \<longrightarrow> ends_normally att"
      by auto
    from new(3) have quiet: "asks (supports_range caps) ?lo ?hi new"
      by (rule asks_quiet)
    from new quiet sent(1) have "effects e1 = effects e @ (?get # new)
     \<and> downloaded (chunks e1 ! i) = downloaded (chunks e ! i) + written (?get # new)
     \<and> length (filter is_get (?get # new)) \<le> 1
     \<and> (\<forall>caps. capabilities e = Some caps \<longrightarrow> asks (supports_range caps) ?lo ?hi (?get # new))
     \<and> sleeps (?get # new) = (if st = Again then [min (2 ^ a) 30] else [])
     \<and> retries (chunks e1 ! i) = retries (chunks e ! i) + (if st = Again then 1 else 0)
     \<and> completed (chunks e1 ! i) = (completed (chunks e ! i) \<or> st = Done True)
     \<and> written (?get # new) \<le> served att
     \<and> (st = Again \<or> st = Done True \<longrightarrow> written (?get # new) = served att)
     \<and> (st = Done True \<longrightarrow> ends_normally att)"
      by simp
    then show ?thesis
      by blast
  qed
qed

text \<open>A transfer writes no chunk but its own.\<close>

lemma others_iter_chunked:
  "iter_chunked i pos items fin e = (b, e1) \<Longrightarrow> j \<noteq> i \<Longrightarrow> chunks e1 ! j = chunks e ! j"
  by (induction i pos items fin e rule: iter_chunked.induct)
    (auto simp add: write_block_def upd_chunk_def split: if_splits)

lemma others_backoff: "j \<noteq> i \<Longrightarrow> chunks (backoff i w a mx calls e) ! j = chunks e ! j"
  by (simp add: backoff_def Let_def update_status_def upd_chunk_def)

lemma others_receive:
  "receive i w a mx att e = (st, e1) \<Longrightarrow> j \<noteq> i \<Longrightarrow> chunks e1 ! j = chunks e ! j"
  by (auto simp add: receive_def Let_def others_backoff upd_chunk_def
      split: attempt.splits response.splits if_splits prod.splits body.splits
      dest: others_iter_chunked)

lemma others_attempt_chunk:
  "attempt_chunk i w a mx att e = (st, e1) \<Longrightarrow> j \<noteq> i \<Longrightarrow> chunks e1 ! j = chunks e ! j"
  by (auto simp add: attempt_chunk_def
      split: if_splits outcome.splits option.splits session_state.splits
      dest: others_receive)

lemma others_attempts:
  assumes "attempts k a i w mx env e = (r, e')" "j \<noteq> i"
  shows "chunks e' ! j = chunks e ! j"
  using assms(1)
  by (rule attempts_preserve [where R = "\<lambda>x y. chunks y ! j = chunks x ! j"])
    (auto dest: others_attempt_chunk [OF _ assms(2)])

lemma attempts_trace:
  assumes run: "attempts k a i w mx env e = (r, e')" and len: "i < length (chunks e)"
  shows "\<exists>new m. effects e' = effects e @ new \<and> m \<le> k
     \<and> downloaded (chunks e' ! i) = downloaded (chunks e ! i) + written new
     \<and> retries (chunks e' ! i) = retries (chunks e ! i) + int m
     \<and> length (filter is_get new) \<le> k
     \<and> (\<forall>caps. capabilities e = Some caps \<longrightarrow>
          asks (supports_range caps) (start (chunks e ! i) + downloaded (chunks e ! i))
            (end_byte (chunks e ! i)) new)
     \<and> sleeps new = map (\<lambda>a. min (2 ^ a) 30) [a..<a + m]
     \<and> (completed (chunks e ! i) \<longrightarrow> completed (chunks e' ! i))
     \<and> (\<forall>missing. 0 \<le> missing \<and> honoured k a missing env \<longrightarrow>
          written new \<le> missing
          \<and> (completed (chunks e' ! i) \<longrightarrow> completed (chunks e ! i) \<or> written new = missing))"
  using run len
proof (induction k arbitrary: a e)
  case 0
  then have "e' = e"
    by simp
  then have "effects e' = effects e @ [] \<and> (0::nat) \<le> 0
     \<and> downloaded (chunks e' ! i) = downloaded (chunks e ! i) + written []
     \<and> retries (chunks e' ! i) = retries (chunks e ! i) + int 0
     \<and> length (filter is_get []) \<le> 0
     \<and> (\<forall>caps. capabilities e = Some caps \<longrightarrow>
          asks (supports_range caps) (start (chunks e ! i) + downloaded (chunks e ! i))
            (end_byte (chunks e ! i)) [])
     \<and> sleeps [] = map (\<lambda>a. min (2 ^ a) 30) [a..<a + 0]
     \<and> (completed (chunks e ! i) \<longrightarrow> completed (chunks e' ! i))
     \<and> (\<forall>missing. 0 \<le> missing \<and> honoured 0 a missing env \<longrightarrow>
          written [] \<le> missing
          \<and> (completed (chunks e' ! i) \<longrightarrow> completed (chunks e ! i) \<or> written [] = missing))"
    by simp
  then show ?case
    by blast
next
  case (Suc k)
  let ?lo = "start (chunks e ! i) + downloaded (chunks e ! i)"
  let ?hi = "end_byte (chunks e ! i)"
  obtain st e1 where one: "attempt_chunk i w a mx (env a) e = (st, e1)"
    by (cases "attempt_chunk i w a mx (env a) e")
  from attempt_chunk_trace [OF one Suc.prems(2)] obtain new1 where new1:
    "effects e1 = effects e @ new1"
    "downloaded (chunks e1 ! i) = downloaded (chunks e ! i) + written new1"
    "length (filter is_get new1) \<le> 1"
    "\<forall>caps. capabilities e = Some caps \<longrightarrow> asks (supports_range caps) ?lo ?hi new1"
    "sleeps new1 = (if st = Again then [min (2 ^ a) 30] else [])"
    "retries (chunks e1 ! i) = retries (chunks e ! i) + (if st = Again then 1 else 0)"
    "completed (chunks e1 ! i) = (completed (chunks e ! i) \<or> st = Done True)"
    "written new1 \<le> served (env a)"
    "st = Again \<or> st = Done True \<longrightarrow> written new1 = served (env a)"
    "st = Done True \<longrightarrow> ends_normally (env a)"
    by auto
  show ?case
  proof (cases "st = Again")
    case False
    with Suc.prems(1) one have last: "e' = e1"
      by (cases st) simp_all
    have honour: "written new1 \<le> missing
        \<and> (completed (chunks e' ! i) \<longrightarrow> completed (chunks e ! i) \<or> written new1 = missing)"
      if "0 \<le> missing \<and> honoured (Suc k) a missing env" for missing
    proof -
      from that have le: "served (env a) \<le> missing"
        and eq: "ends_normally (env a) \<Longrightarrow> served (env a) = missing"
        by (simp_all split: if_splits)
      from new1(8) le have "written new1 \<le> missing"
        by simp
      moreover have "completed (chunks e ! i) \<or> written new1 = missing"
        if "completed (chunks e' ! i)"
      proof (cases "st = Done True")
        case True
        with new1(9,10) eq show ?thesis
          by simp
      next
        case False
        with that last new1(7) show ?thesis
          by simp
      qed
      ultimately show ?thesis
        by blast
    qed
    from False last new1 have "effects e' = effects e @ new1 \<and> 0 \<le> Suc k
     \<and> downloaded (chunks e' ! i) = downloaded (chunks e ! i) + written new1
     \<and> retries (chunks e' ! i) = retries (chunks e ! i) + int 0
     \<and> length (filter is_get new1) \<le> Suc k
     \<and> (\<forall>caps. capabilities e = Some caps \<longrightarrow> asks (supports_range caps) ?lo ?hi new1)
     \<and> sleeps new1 = map (\<lambda>a. min (2 ^ a) 30) [a..<a + 0]
     \<and> (completed (chunks e ! i) \<longrightarrow> completed (chunks e' ! i))"
      by simp
    with honour show ?thesis
      by blast
  next
    case True
    with Suc.prems(1) one have rest: "attempts k (Suc a) i w mx env e1 = (r, e')"
      by simp
    from fixed_attempt_chunk [OF one] have same: "fixed e1 = fixed e" .
    from same Suc.prems(2) have len1: "i < length (chunks e1)"
      and st1: "start (chunks e1 ! i) = start (chunks e ! i)"
      and en1: "end_byte (chunks e1 ! i) = end_byte (chunks e ! i)"
      using fixed_chunk(1) [of e1 e] fixed_chunk(3) [of e1 e i] fixed_chunk(4) [of e1 e i]
      by simp_all
    from same have caps1: "capabilities e1 = capabilities e"
      by (simp add: fixed_def)
    from Suc.IH [OF rest len1] obtain new2 m where new2:
      "effects e' = effects e1 @ new2" "m \<le> k"
      "downloaded (chunks e' ! i) = downloaded (chunks e1 ! i) + written new2"
      "retries (chunks e' ! i) = retries (chunks e1 ! i) + int m"
      "length (filter is_get new2) \<le> k"
      "\<forall>caps. capabilities e1 = Some caps \<longrightarrow>
          asks (supports_range caps) (start (chunks e1 ! i) + downloaded (chunks e1 ! i))
            (end_byte (chunks e1 ! i)) new2"
      "sleeps new2 = map (\<lambda>a. min (2 ^ a) 30) [Suc a..<Suc a + m]"
      "completed (chunks e1 ! i) \<longrightarrow> completed (chunks e' ! i)"
      "\<forall>missing. 0 \<le> missing \<and> honoured k (Suc a) missing env \<longrightarrow>
          written new2 \<le> missing
          \<and> (completed (chunks e' ! i) \<longrightarrow> completed (chunks e1 ! i) \<or> written new2 = missing)"
      by blast
    have log: "effects e' = effects e @ (new1 @ new2)"
      using new1(1) new2(1) by simp
    have count: "Suc m \<le> Suc k"
      using new2(2) by simp
    have bytes: "downloaded (chunks e' ! i) = downloaded (chunks e ! i) + written (new1 @ new2)"
      using new1(2) new2(3) by simp
    have tries: "retries (chunks e' ! i) = retries (chunks e ! i) + int (Suc m)"
      using True new1(6) new2(4) by simp
    have gets: "length (filter is_get (new1 @ new2)) \<le> Suc k"
      using new1(3) new2(5) by simp
    have ranges: "asks (supports_range caps) ?lo ?hi (new1 @ new2)"
      if "capabilities e = Some caps" for caps
      using that new1(4) new2(6) caps1 st1 en1 new1(2)
      by (simp add: asks_append add.assoc)
    have naps: "sleeps (new1 @ new2) = map (\<lambda>a. min (2 ^ a) 30) [a..<a + Suc m]"
      using True new1(5) new2(7) by (simp del: upt_Suc add: upt_conv_Cons)
    have sticky: "completed (chunks e ! i) \<longrightarrow> completed (chunks e' ! i)"
      using new1(7) new2(8) by simp
    have honour: "written (new1 @ new2) \<le> missing
        \<and> (completed (chunks e' ! i) \<longrightarrow> completed (chunks e ! i) \<or> written (new1 @ new2) = missing)"
      if "0 \<le> missing \<and> honoured (Suc k) a missing env" for missing
    proof -
      from that have le: "served (env a) \<le> missing"
        and later: "honoured k (Suc a) (missing - served (env a)) env"
        by simp_all
      from True new1(9) have all: "written new1 = served (env a)"
        by simp
      from le have "0 \<le> missing - served (env a)"
        by simp
      with later new2(9) have "written new2 \<le> missing - served (env a)"
        and "completed (chunks e' ! i) \<longrightarrow>
          completed (chunks e1 ! i) \<or> written new2 = missing - served (env a)"
        by blast+
      with all True new1(7) show ?thesis
        by auto
    qed
    from log count bytes tries gets ranges naps sticky honour show ?thesis
      by blast
  qed
qed

section \<open>Chunk planner\<close>

text \<open>
  A fresh plan for \<open>n \<ge> 1\<close> workers has \<open>n\<close> chunks whose lengths sum to the size, each
  ending before the next starts, and every byte of the file lies in one of them. Every
  chunk has \<open>start \<le> end\<close> when there are no more workers than bytes.
\<close>

lemma plan_chunks_nth:
  assumes "0 < n" "k < nat n"
  shows "plan_chunks t n ! k
    = new_chunk (int k * (t div n))
        (if int k = n - 1 then t - 1 else int k * (t div n) + t div n - 1)"
  using assms by (simp add: plan_chunks_def Let_def)

lemma plan_chunks_length: "0 < n \<Longrightarrow> length (plan_chunks t n) = nat n"
  by (simp add: plan_chunks_def Let_def)

lemma plan_chunks_sum:
  assumes "0 < n"
  shows "(\<Sum>c\<leftarrow>plan_chunks t n. end_byte c - start c + 1) = t"
proof -
  let ?s = "t div n"
  let ?len = "\<lambda>i. (if i = n - 1 then t - 1 else i * ?s + ?s - 1) - i * ?s + 1"
  from assms have split: "[0..n - 1] = [0..n - 2] @ [n - 1]"
    using upto_rec2 [of 0 "n - 1"] by simp
  have "map ?len [0..n - 2] = map (\<lambda>i. ?s) [0..n - 2]"
    by (rule map_cong) auto
  then have "sum_list (map ?len [0..n - 2]) = sum_list (map (\<lambda>i. ?s) [0..n - 2])"
    by (rule arg_cong)
  also have "\<dots> = (n - 1) * ?s"
    using assms by (simp add: sum_list_triv)
  finally have front: "sum_list (map ?len [0..n - 2]) = (n - 1) * ?s" .
  have "(\<Sum>c\<leftarrow>plan_chunks t n. end_byte c - start c + 1) = sum_list (map ?len [0..n - 1])"
    by (simp add: plan_chunks_def Let_def new_chunk_def comp_def)
  also have "\<dots> = sum_list (map ?len [0..n - 2]) + ?len (n - 1)"
    by (simp add: split)
  also have "\<dots> = t"
    by (simp add: front)
  finally show ?thesis .
qed

lemma plan_chunks_disjoint:
  assumes "0 < n" "0 < t" "j < nat n" "i < j"
  shows "end_byte (plan_chunks t n ! i) < start (plan_chunks t n ! j)"
proof -
  let ?s = "t div n"
  from assms have s: "0 \<le> ?s"
    by (simp add: pos_imp_zdiv_nonneg_iff)
  from assms have "int i + 1 \<le> int j"
    by simp
  from this s have "(int i + 1) * ?s \<le> int j * ?s"
    by (rule mult_right_mono)
  then have "int i * ?s + ?s - 1 < int j * ?s"
    by (simp add: algebra_simps)
  with assms show ?thesis
    by (simp add: plan_chunks_nth new_chunk_def)
qed

lemma plan_chunks_cover:
  assumes "0 < n" "0 \<le> x" "x < t"
  shows "\<exists>c \<in> set (plan_chunks t n). start c \<le> x \<and> x \<le> end_byte c"
proof -
  let ?s = "t div n"
  from assms have s: "0 \<le> ?s"
    by (simp add: pos_imp_zdiv_nonneg_iff)
  define i where "i = (if ?s = 0 \<or> n - 1 \<le> x div ?s then n - 1 else x div ?s)"
  have "0 \<le> x div ?s" if "?s \<noteq> 0"
    using that s assms(2) pos_imp_zdiv_nonneg_iff [of ?s x] by simp
  with assms have range: "0 \<le> i" "i \<le> n - 1"
    by (auto simp add: i_def)
  then have mem: "new_chunk (i * ?s) (if i = n - 1 then t - 1 else i * ?s + ?s - 1)
      \<in> set (plan_chunks t n)"
    by (simp add: plan_chunks_def Let_def)
  have low: "i * ?s \<le> x"
  proof (cases "?s = 0")
    case True
    with assms show ?thesis by simp
  next
    case False
    with s have pos: "0 < ?s" by simp
    have "i \<le> x div ?s"
      using False by (simp add: i_def)
    with pos have "i * ?s \<le> (x div ?s) * ?s"
      by (simp add: mult_right_mono)
    also from pos have "\<dots> \<le> x"
      using div_mult_mod_eq [of x ?s] pos_mod_sign [of ?s x] by linarith
    finally show ?thesis .
  qed
  have high: "x \<le> (if i = n - 1 then t - 1 else i * ?s + ?s - 1)"
  proof (cases "i = n - 1")
    case True
    with assms show ?thesis by simp
  next
    case False
    then have i: "i = x div ?s" and pos: "?s \<noteq> 0"
      by (simp_all add: i_def split: if_splits)
    with s have "0 < ?s" by simp
    then have "x < (x div ?s) * ?s + ?s"
      using div_mult_mod_eq [of x ?s] pos_mod_bound [of ?s x] by linarith
    with False i show ?thesis
      by simp
  qed
  from mem low high show ?thesis
    by (auto simp add: new_chunk_def intro!: bexI [OF _ mem])
qed

lemma plan_chunks_ordered:
  assumes "0 < n" "n \<le> t" "c \<in> set (plan_chunks t n)"
  shows "start c \<le> end_byte c"
proof -
  let ?s = "t div n"
  from assms have s: "1 \<le> ?s"
    using pos_imp_zdiv_pos_iff [of n t] by simp
  from assms(3) obtain i where i: "0 \<le> i" "i \<le> n - 1"
    and c: "c = new_chunk (i * ?s) (if i = n - 1 then t - 1 else i * ?s + ?s - 1)"
    by (auto simp add: plan_chunks_def Let_def)
  have "t = n * ?s + t mod n"
    by simp
  moreover from assms(1) have "0 \<le> t mod n"
    by simp
  ultimately have "n * ?s \<le> t"
    by linarith
  then have "(n - 1) * ?s \<le> t - 1"
    using s by (simp add: algebra_simps)
  with c s show ?thesis
    by (simp add: new_chunk_def)
qed

text \<open>
  Whenever \<open>prepare_chunks\<close> finds a sidecar that it rejects, it deletes the sidecar and
  leaves the chunk vector as it was.
\<close>

lemma rejected_sidecar_skips_the_plan:
  assumes "metadata_file e = Some side"
    and "side = Unreadable \<or> side = NotJson
      \<or> (\<exists>d. side = Object d \<and> (md_url d \<noteq> Some (url e) \<or> md_total_size d \<noteq> Some (total_size e)))"
  shows "chunks (snd (prepare_chunks e)) = chunks e \<and> metadata_file (snd (prepare_chunks e)) = None"
  using assms by (auto simp add: prepare_chunks_def load_metadata_def update_status_def)

text \<open>
  C1. A sidecar that disagrees with the probe, or that cannot be read or parsed, is
  deleted by \<open>prepare_chunks\<close>, and the claim has the engine then plan the chunks as
  if no sidecar had existed. The code returns from \<open>load_metadata\<close> and never reaches the
  planner: with four workers and 1000 bytes on a ranged server, a sidecar of another
  URL, an unparsable one and an unreadable one each leave the chunk vector empty, where
  the same engine without a sidecar plans four chunks.
\<close>

theorem rejected_sidecar_leaves_no_chunks:
  "list_all (\<lambda>side.
       chunks (snd (prepare_chunks (initialize (ranged_server ''1000'')
         (init ''http://t/f'' ''f.bin'' 4 None (Some side))))) = []
     \<and> metadata_file (snd (prepare_chunks (initialize (ranged_server ''1000'')
         (init ''http://t/f'' ''f.bin'' 4 None (Some side))))) = None)
     [Object stale_metadata, NotJson, Unreadable]
   \<and> map (\<lambda>c. (start c, end_byte c))
       (chunks (snd (prepare_chunks (initialize (ranged_server ''1000'')
         (init ''http://t/f'' ''f.bin'' 4 None None)))))
     = [(0, 249), (250, 499), (500, 749), (750, 999)]"
  by (simp add: probe_defs plan_defs stale_metadata_def)

text \<open>
  C3. The claim has every chunk of a fresh plan satisfy \<open>start \<le> end\<close>, for every worker
  count. With more workers than bytes the chunk size is zero: eight workers and three
  bytes give seven chunks from 0 to -1 and one chunk from 0 to 2. The transfer of such a
  chunk sends no \<open>Range\<close> header, since its range is empty, and writes the whole file that
  the server then sends at offset 0.
\<close>

theorem plan_with_more_workers_than_bytes:
  "map (\<lambda>c. (start c, end_byte c))
     (chunks (snd (prepare_chunks (initialize (ranged_server ''3'')
       (init ''http://t/f'' ''f.bin'' 8 None None)))))
   = [(0, - 1), (0, - 1), (0, - 1), (0, - 1), (0, - 1), (0, - 1), (0, - 1), (0, 2)]
   \<and> drop 2 (effects (snd (download_chunk_with_retry 0 0 5
         (\<lambda>a. Attempt (Response 200 [Data [1, 2, 3]] Eof) []) (claimed_first ''3'' 8))))
     = [HttpGet ''http://t/f'' None, FileWrite 0 3]"
  by (simp add: probe_defs plan_defs transfer_defs eval_nat_numeral)

section \<open>Capability prober\<close>

text \<open>
  A probe that is answered without usable ranges sets the worker count to 1; a probe that
  fails leaves the worker count as the engine was built.
\<close>

lemma failed_probe_keeps_num_threads:
  "num_threads (initialize HeadFailed e) = num_threads e"
  by (simp add: initialize_def detect_capabilities_def probe_fallback_def update_status_def Let_def)

lemma answered_probe_without_ranges_forces_one_worker:
  assumes "announced_size h = Some n" "h ''Accept-Ranges'' = None \<or> h ''Accept-Ranges'' = Some ''none''"
  shows "num_threads (initialize (HeadResponse h) e) = 1"
  using assms
  by (auto simp add: initialize_def detect_capabilities_def update_status_def Let_def)

text \<open>
  C6. After a failed probe the capabilities are the defaults, the size is 0 and the plan
  is the single chunk from 0 to -1, as the claim says; the worker count is not forced
  to 1: an engine built with eight workers keeps eight, and \<open>download\<close> creates eight
  worker tasks.
\<close>

theorem failed_probe_keeps_worker_count:
  "capabilities (initialize HeadFailed (init ''http://t/f'' ''f.bin'' 8 None None))
     = Some default_capabilities
   \<and> total_size (initialize HeadFailed (init ''http://t/f'' ''f.bin'' 8 None None)) = 0
   \<and> chunks (snd (prepare_chunks (initialize HeadFailed (init ''http://t/f'' ''f.bin'' 8 None None))))
     = [new_chunk 0 (- 1)]
   \<and> num_threads (initialize HeadFailed (init ''http://t/f'' ''f.bin'' 8 None None)) = 8
   \<and> worker_tasks (snd (prepare_chunks (initialize HeadFailed (init ''http://t/f'' ''f.bin'' 8 None None))))
     = [0, 1, 2, 3, 4, 5, 6, 7]"
  by (simp add: probe_defs plan_defs worker_tasks_def)



section \<open>Claim protocol\<close>

lemma scan_Some:
  "scan k cs = Some j \<Longrightarrow>
     k \<le> j \<and> j - k < length cs \<and> \<not> completed (cs ! (j - k)) \<and> thread_id (cs ! (j - k)) = None
     \<and> (\<forall>m < j - k. completed (cs ! m) \<or> thread_id (cs ! m) \<noteq> None)"
proof (induction cs arbitrary: k)
  case Nil
  then show ?case by simp
next
  case (Cons c cs)
  show ?case
  proof (cases "\<not> completed c \<and> thread_id c = None")
    case True
    with Cons.prems show ?thesis by simp
  next
    case False
    with Cons.prems have "scan (Suc k) cs = Some j"
      by auto
    from Cons.IH [OF this] have ih: "Suc k \<le> j" "j - Suc k < length cs"
      "\<not> completed (cs ! (j - Suc k))" "thread_id (cs ! (j - Suc k)) = None"
      "\<forall>m < j - Suc k. completed (cs ! m) \<or> thread_id (cs ! m) \<noteq> None"
      by simp_all
    from ih(1) have jk: "j - k = Suc (j - Suc k)"
      by simp
    have "\<forall>m < j - k. completed ((c # cs) ! m) \<or> thread_id ((c # cs) ! m) \<noteq> None"
    proof (intro allI impI)
      fix m
      assume "m < j - k"
      with jk ih(5) False show "completed ((c # cs) ! m) \<or> thread_id ((c # cs) ! m) \<noteq> None"
        by (cases m) auto
    qed
    with ih jk show ?thesis
      by simp
  qed
qed

lemma scan_None:
  "scan k cs = None \<longleftrightarrow> list_all (\<lambda>c. completed c \<or> thread_id c \<noteq> None) cs"
  by (induction cs arbitrary: k) auto

text \<open>
  C9. \<open>get_next_chunk\<close> returns the first chunk of the vector that is neither completed
  nor claimed and marks it with the worker's id, changing nothing else; it returns
  \<open>None\<close>, changing nothing, when every chunk is completed or claimed. A chunk that has
  a claimant (a failed transfer leaves it in place) is returned by no claim of any
  session that follows: no event of a session clears a claimant.
\<close>

theorem get_next_chunk_first_free:
  "(case get_next_chunk w e of
      (None, e') \<Rightarrow>
        e' = e \<and> list_all (\<lambda>c. completed c \<or> thread_id c \<noteq> None) (chunks e)
    | (Some i, e') \<Rightarrow>
        i < length (chunks e) \<and> \<not> completed (chunks e ! i) \<and> thread_id (chunks e ! i) = None
        \<and> (\<forall>j < i. completed (chunks e ! j) \<or> thread_id (chunks e ! j) \<noteq> None)
        \<and> e' = e\<lparr>chunks := (chunks e)[i := (chunks e ! i)\<lparr>thread_id := Some w\<rparr>]\<rparr>)
   \<and> (\<forall>i evs. i < length (chunks e) \<and> thread_id (chunks e ! i) \<noteq> None
        \<longrightarrow> i \<notin> set (claimed evs e))"
proof -
  have first: "(case get_next_chunk w e of
      (None, e') \<Rightarrow>
        e' = e \<and> list_all (\<lambda>c. completed c \<or> thread_id c \<noteq> None) (chunks e)
    | (Some i, e') \<Rightarrow>
        i < length (chunks e) \<and> \<not> completed (chunks e ! i) \<and> thread_id (chunks e ! i) = None
        \<and> (\<forall>j < i. completed (chunks e ! j) \<or> thread_id (chunks e ! j) \<noteq> None)
        \<and> e' = e\<lparr>chunks := (chunks e)[i := (chunks e ! i)\<lparr>thread_id := Some w\<rparr>]\<rparr>)"
  proof (cases "scan 0 (chunks e)")
    case None
    then have "list_all (\<lambda>c. completed c \<or> thread_id c \<noteq> None) (chunks e)"
      by (simp add: scan_None)
    with None show ?thesis
      by (simp add: get_next_chunk_def)
  next
    case (Some i)
    from scan_Some [OF Some] Some show ?thesis
      by (simp add: get_next_chunk_def upd_chunk_def)
  qed
  have never: "i \<notin> set (claimed evs e)"
    if "i < length (chunks e)" "thread_id (chunks e ! i) \<noteq> None" for i evs
    using that
  proof (induction evs arbitrary: e)
    case Nil
    show ?case by simp
  next
    case (Cons ev evs)
    obtain r e1 where step: "event_step ev e = (r, e1)"
      by (cases "event_step ev e")
    have keep: "i < length (chunks e1) \<and> thread_id (chunks e1 ! i) \<noteq> None \<and> r \<noteq> Some i"
    proof (cases ev)
      case (Claims w')
      show ?thesis
      proof (cases "scan 0 (chunks e)")
        case None
        with step Claims Cons.prems show ?thesis
          by (simp add: get_next_chunk_def)
      next
        case (Some j)
        from scan_Some [OF Some] have "thread_id (chunks e ! j) = None"
          by simp
        with Cons.prems have "j \<noteq> i"
          by auto
        with step Claims Some Cons.prems show ?thesis
          by (auto simp add: get_next_chunk_def upd_chunk_def)
      qed
    next
      case (Transfers j w' env)
      with step have "fixed e1 = fixed e" "r = None"
        using fixed_download_chunk_with_retry [of j w' 5 env e]
        by (auto simp add: prod_eq_iff)
      with Cons.prems fixed_keeps_claim [of e1 e i] show ?thesis
        by simp
    next
      case (Saves t ok)
      with step have "fixed e1 = fixed e" "r = None"
        using fixed_save_metadata [of t ok e]
        by (auto simp add: prod_eq_iff)
      with Cons.prems fixed_keeps_claim [of e1 e i] show ?thesis
        by simp
    next
      case (Reports w')
      with step have "fixed e1 = fixed e" "r = None"
        by auto
      with Cons.prems fixed_keeps_claim [of e1 e i] show ?thesis
        by simp
    next
      case (Calls c)
      with step have "fixed e1 = fixed e" "r = None"
        by auto
      with Cons.prems fixed_keeps_claim [of e1 e i] show ?thesis
        by simp
    qed
    then have "i \<notin> set (claimed evs e1)"
      using Cons.IH [of e1] by simp
    with step keep show ?case
      by (cases r) auto
  qed
  from first never show ?thesis
    by blast
qed

text \<open>
  Two workers, two chunks of four bytes. Worker 0 has claimed chunk 0; its transfer
  fails five times and it reports the failure. Its next claim returns chunk 1, and a
  claim of worker 1 after that returns nothing: chunk 0 is not handed out again.
\<close>

theorem get_next_chunk_first_free_witness:
  "get_next_chunk 0 (snd (get_next_chunk 0 (started ''8'' 2)))
     = (Some 1, upd_chunk 1 (\<lambda>c. c\<lparr>thread_id := Some 0\<rparr>) (snd (get_next_chunk 0 (started ''8'' 2))))
   \<and> thread_id (chunks (snd (get_next_chunk 0 (started ''8'' 2))) ! 0) = Some 0
   \<and> claimed [Transfers 0 0 (\<lambda>a. Attempt RequestFailed []), Reports 0, Claims 0, Claims 1]
        (snd (get_next_chunk 0 (started ''8'' 2))) = [1]
   \<and> 0 \<notin> set (claimed [Transfers 0 0 (\<lambda>a. Attempt RequestFailed []), Reports 0, Claims 0, Claims 1]
        (snd (get_next_chunk 0 (started ''8'' 2))))"
  using get_next_chunk_first_free [where w = 0 and e = "snd (get_next_chunk 0 (started ''8'' 2))"]
  by (simp add: transfer_defs probe_defs plan_defs eval_nat_numeral)

section \<open>Chunk transfer and retry\<close>



text \<open>
  C4, as stated, fails for the chunk from 0 to -1 of a download of unknown length: a 200
  response with five bytes completes the chunk with \<open>downloaded = 5\<close>, above
  \<open>end - start + 1 = 0\<close>.
\<close>

theorem sentinel_chunk_exceeds_its_bounds:
  "\<not> downloaded (chunks (snd (download_chunk_with_retry 0 0 5
          (\<lambda>a. Attempt (Response 200 [Data [1, 2, 3, 4, 5]] Eof) []) streaming)) ! 0)
      \<le> end_byte (chunks (snd (download_chunk_with_retry 0 0 5
          (\<lambda>a. Attempt (Response 200 [Data [1, 2, 3, 4, 5]] Eof) []) streaming)) ! 0)
        - start (chunks (snd (download_chunk_with_retry 0 0 5
          (\<lambda>a. Attempt (Response 200 [Data [1, 2, 3, 4, 5]] Eof) []) streaming)) ! 0) + 1
   \<and> map (\<lambda>c. (start c, end_byte c, downloaded c, completed c))
        (chunks (snd (download_chunk_with_retry 0 0 5
          (\<lambda>a. Attempt (Response 200 [Data [1, 2, 3, 4, 5]] Eof) []) streaming)))
     = [(0, - 1, 5, True)]"
  by (simp add: transfer_defs probe_defs plan_defs eval_nat_numeral)

text \<open>
  C4, amended. For every transfer of a chunk of the vector, whatever the world does:
  \<open>downloaded\<close> grows by the bytes written and by nothing else, so it never decreases at
  any point of the transfer; \<open>completed\<close> stays true once true; no other chunk is
  written. When the chunk satisfies \<open>downloaded \<le> end - start + 1\<close> and
  \<open>completed \<Longrightarrow> downloaded = end - start + 1\<close> before the transfer, and every accepted
  response (200 or 206) serves at most the bytes the chunk still misses, all of them
  when its body ends normally, then \<open>downloaded \<le> end - start + 1\<close> holds at every point
  of the transfer and \<open>completed\<close> implies \<open>downloaded = end - start + 1\<close> after it.
\<close>

theorem chunk_progress_invariant:
  assumes len: "i < length (chunks e)"
  shows "\<exists>new. effects (snd (download_chunk_with_retry i w n env e)) = effects e @ new
     \<and> downloaded (chunks (snd (download_chunk_with_retry i w n env e)) ! i)
         = downloaded (chunks e ! i) + written new
     \<and> (\<forall>k. written (take k new) \<le> written (take (Suc k) new))
     \<and> (completed (chunks e ! i) \<longrightarrow>
          completed (chunks (snd (download_chunk_with_retry i w n env e)) ! i))
     \<and> (\<forall>j. j \<noteq> i \<longrightarrow>
          chunks (snd (download_chunk_with_retry i w n env e)) ! j = chunks e ! j)
     \<and> (downloaded (chunks e ! i) \<le> end_byte (chunks e ! i) - start (chunks e ! i) + 1
          \<and> (completed (chunks e ! i) \<longrightarrow>
               downloaded (chunks e ! i) = end_byte (chunks e ! i) - start (chunks e ! i) + 1)
          \<and> honoured n 0
               (end_byte (chunks e ! i) - start (chunks e ! i) + 1 - downloaded (chunks e ! i)) env
        \<longrightarrow>
          (\<forall>k. downloaded (chunks e ! i) + written (take k new)
                 \<le> end_byte (chunks e ! i) - start (chunks e ! i) + 1)
          \<and> (completed (chunks (snd (download_chunk_with_retry i w n env e)) ! i) \<longrightarrow>
               downloaded (chunks (snd (download_chunk_with_retry i w n env e)) ! i)
                 = end_byte (chunks e ! i) - start (chunks e ! i) + 1))"
proof -
  let ?size = "end_byte (chunks e ! i) - start (chunks e ! i) + 1"
  let ?missing = "?size - downloaded (chunks e ! i)"
  obtain r e' where run: "download_chunk_with_retry i w n env e = (r, e')"
    by (cases "download_chunk_with_retry i w n env e")
  then have loop: "attempts n 0 i w n env e = (r, e')"
    by (simp add: download_chunk_with_retry_def)
  from attempts_trace [OF loop len] obtain new where new:
    "effects e' = effects e @ new"
    "downloaded (chunks e' ! i) = downloaded (chunks e ! i) + written new"
    "completed (chunks e ! i) \<longrightarrow> completed (chunks e' ! i)"
    "\<forall>missing. 0 \<le> missing \<and> honoured n 0 missing env \<longrightarrow>
        written new \<le> missing
        \<and> (completed (chunks e' ! i) \<longrightarrow> completed (chunks e ! i) \<or> written new = missing)"
    by blast
  have others: "chunks e' ! j = chunks e ! j" if "j \<noteq> i" for j
    using loop that by (rule others_attempts)
  have bound: "(\<forall>k. downloaded (chunks e ! i) + written (take k new) \<le> ?size)
      \<and> (completed (chunks e' ! i) \<longrightarrow> downloaded (chunks e' ! i) = ?size)"
    if inv: "downloaded (chunks e ! i) \<le> ?size
      \<and> (completed (chunks e ! i) \<longrightarrow> downloaded (chunks e ! i) = ?size)
      \<and> honoured n 0 ?missing env"
  proof -
    from inv have "0 \<le> ?missing \<and> honoured n 0 ?missing env"
      by simp
    with new(4) have le: "written new \<le> ?missing"
      and eq: "completed (chunks e' ! i) \<longrightarrow> completed (chunks e ! i) \<or> written new = ?missing"
      by blast+
    have "downloaded (chunks e ! i) + written (take k new) \<le> ?size" for k
      using le written_take [of k new] by simp
    moreover have "downloaded (chunks e' ! i) = ?size" if "completed (chunks e' ! i)"
    proof (cases "completed (chunks e ! i)")
      case True
      with inv have "?missing = 0"
        by simp
      with le written_nonneg [of new] have "written new = 0"
        by simp
      with new(2) True inv show ?thesis
        by simp
    next
      case False
      with eq that have "written new = ?missing"
        by simp
      with new(2) show ?thesis
        by simp
    qed
    ultimately show ?thesis
      by blast
  qed
  from run new(1,2,3) others bound written_take_Suc [of _ new] show ?thesis
    by auto
qed

theorem chunk_progress_invariant_witness:
  "0 < length (chunks (claimed_first ''8'' 1))
   \<and> honoured 5 0 8 flaky
   \<and> map (\<lambda>c. (start c, end_byte c, downloaded c, completed c)) (chunks (claimed_first ''8'' 1))
     = [(0, 7, 0, False)]
   \<and> map (\<lambda>c. (start c, end_byte c, downloaded c, completed c))
       (chunks (snd (download_chunk_with_retry 0 0 5 flaky (claimed_first ''8'' 1))))
     = [(0, 7, 8, True)]"
proof -
  have len: "0 < length (chunks (claimed_first ''8'' 1))"
    by (simp add: transfer_defs probe_defs plan_defs)
  have world: "honoured 5 0 8 flaky"
    by (simp add: flaky_def eval_nat_numeral)
  have before: "map (\<lambda>c. (start c, end_byte c, downloaded c, completed c))
      (chunks (claimed_first ''8'' 1)) = [(0, 7, 0, False)]"
    by (simp add: transfer_defs probe_defs plan_defs)
  have after: "map (\<lambda>c. (start c, end_byte c, downloaded c, completed c))
       (chunks (snd (download_chunk_with_retry 0 0 5 flaky (claimed_first ''8'' 1))))
     = [(0, 7, 8, True)]"
    by (simp add: transfer_defs probe_defs plan_defs eval_nat_numeral)
  from chunk_progress_invariant [OF len, where w = 0 and n = 5 and env = flaky]
    len world before after
  show ?thesis
    by simp
qed

section \<open>Control surface\<close>

text \<open>
  On an engine that is not stopped, a body during which \<open>stop\<close> is not called is
  written to its last block, whatever the pause flag is and whichever calls of \<open>pause\<close>
  and \<open>resume\<close> land in between.
\<close>

lemma body_ends_without_stop:
  assumes "\<not> is_stopped e" "Call Stop \<notin> set items"
  shows "fst (iter_chunked i pos items fin e) \<noteq> StoppedEarly"
  using assms
proof (induction i pos items fin e rule: iter_chunked.induct)
  case (3 i pos c items fin e)
  then show ?case
    by (cases c) (simp_all add: pause_def resume_def update_status_def)
next
  case (4 i pos d items fin e)
  then show ?case
    by (simp add: write_block_def upd_chunk_def)
qed simp_all

text \<open>
  C2. The claim has no block written while the pause flag is set and the stop flag is
  clear. The loop over the blocks polls the stop flag only: \<open>pause\<close> lands after the
  first block of four bytes of a chunk of eight, and the second block is written all the
  same, with the engine paused and not stopped.
\<close>

theorem pause_does_not_hold_back_blocks:
  "(case download_chunk_with_retry 0 0 5
           (\<lambda>a. Attempt (Response 206 [Data [1, 2, 3, 4], Call Pause, Data [5, 6, 7, 8]] Eof) [])
           (snd (get_next_chunk 0 (started ''8'' 1)))
    of (r, e) \<Rightarrow> (r, is_paused e, is_stopped e, downloaded_size e, output_file e,
                  drop 3 (effects e)))
   = (Return True, True, False, 8, Some [1, 2, 3, 4, 5, 6, 7, 8],
      [FileWrite 0 4, Status PausedMsg, FileWrite 4 4])"
  by (simp add: transfer_defs probe_defs plan_defs eval_nat_numeral)

section \<open>Verifier\<close>

text \<open>
  C8. \<open>verify_download\<close> never changes the destination. When the destination is missing,
  or the size is known and differs from the size on disk, it changes nothing but the
  status log (the check and the reason), so the sidecar stays. Otherwise it reports the
  first 16 characters of the digest and deletes the sidecar, and changes nothing else.
\<close>

theorem verify_download_frame:
  "output_file (verify_download h e) = output_file e
   \<and> (output_file e = None \<longrightarrow>
        verify_download h e = e\<lparr>effects := effects e @ [Status Verifying, Status FileNotFound]\<rparr>)
   \<and> (\<forall>bytes. output_file e = Some bytes \<and> total_size e > 0 \<and> int (length bytes) \<noteq> total_size e
        \<longrightarrow> verify_download h e = e\<lparr>effects := effects e @
          [Status Verifying, Status (SizeMismatch (total_size e) (int (length bytes)))]\<rparr>)
   \<and> (\<forall>bytes. output_file e = Some bytes
          \<and> (total_size e > 0 \<longrightarrow> int (length bytes) = total_size e)
        \<longrightarrow> verify_download h e = e\<lparr>metadata_file := None, effects := effects e @
          [Status Verifying, Status Checksumming, Status (VerifyDone (take 16 (h bytes)))]\<rparr>)"
  by (auto simp add: verify_download_def update_status_def Let_def split: option.splits)

theorem verify_download_frame_witness:
  "verify_download (\<lambda>b. ''9f86d081884c7d659a2feaa0c55ad015a3bf4f1b2b0b822cd15d6c15b0f00a08'')
      ((init ''http://t/f'' ''f.bin'' 1 (Some [1, 2, 3]) (Some (Object stale_metadata)))
         \<lparr>total_size := 3\<rparr>)
     = (init ''http://t/f'' ''f.bin'' 1 (Some [1, 2, 3]) None)
         \<lparr>total_size := 3, effects := [Status Verifying, Status Checksumming,
            Status (VerifyDone ''9f86d081884c7d65'')]\<rparr>
   \<and> verify_download (\<lambda>b. ''9f86d081884c7d659a2feaa0c55ad015a3bf4f1b2b0b822cd15d6c15b0f00a08'')
      ((init ''http://t/f'' ''f.bin'' 1 (Some [1, 2, 3]) (Some (Object stale_metadata)))
         \<lparr>total_size := 4\<rparr>)
     = (init ''http://t/f'' ''f.bin'' 1 (Some [1, 2, 3]) (Some (Object stale_metadata)))
         \<lparr>total_size := 4, effects := [Status Verifying, Status (SizeMismatch 4 3)]\<rparr>
   \<and> verify_download (\<lambda>b. ''9f86d081884c7d659a2feaa0c55ad015a3bf4f1b2b0b822cd15d6c15b0f00a08'')
      ((init ''http://t/f'' ''f.bin'' 1 None (Some (Object stale_metadata)))\<lparr>total_size := 4\<rparr>)
     = (init ''http://t/f'' ''f.bin'' 1 None (Some (Object stale_metadata)))
         \<lparr>total_size := 4, effects := [Status Verifying, Status FileNotFound]\<rparr>"
  using verify_download_frame
      [where h = "\<lambda>b. ''9f86d081884c7d659a2feaa0c55ad015a3bf4f1b2b0b822cd15d6c15b0f00a08''"
       and e = "(init ''http://t/f'' ''f.bin'' 1 (Some [1, 2, 3]) (Some (Object stale_metadata)))
         \<lparr>total_size := 3\<rparr>"]
    verify_download_frame
      [where h = "\<lambda>b. ''9f86d081884c7d659a2feaa0c55ad015a3bf4f1b2b0b822cd15d6c15b0f00a08''"
       and e = "(init ''http://t/f'' ''f.bin'' 1 (Some [1, 2, 3]) (Some (Object stale_metadata)))
         \<lparr>total_size := 4\<rparr>"]
    verify_download_frame
      [where h = "\<lambda>b. ''9f86d081884c7d659a2feaa0c55ad015a3bf4f1b2b0b822cd15d6c15b0f00a08''"
       and e = "(init ''http://t/f'' ''f.bin'' 1 None (Some (Object stale_metadata)))
         \<lparr>total_size := 4\<rparr>"]
  by (simp add: init_def)

section \<open>Orchestration\<close>

text \<open>
  Once the monitor task is created, the \<open>finally\<close> block cancels it and closes the
  session, whether the tasks return or raise; before that, it raises and closes nothing.
\<close>

lemma download_cleans_up_once_the_monitor_runs:
  assumes "download_try w e = (r, Running, e')"
  shows "download w e = (r, Cancelled, if session e' \<noteq> NoSession then e'\<lparr>session := SessionClosed\<rparr> else e')"
  using assms by (simp add: download_def download_finally_def)

lemma download_leaves_session_when_monitor_unbound:
  assumes "download_try w e = (r, Unbound, e')"
  shows "download w e = (Raise UnboundLocalError, Unbound, e')"
  using assms by (simp add: download_def download_finally_def)

text \<open>
  C5. The claim has the session closed and the monitor cancelled on every exit path of
  \<open>download\<close>. When the destination cannot be created the preallocation raises before
  \<open>monitor_task\<close> is bound: the \<open>finally\<close> block raises \<open>UnboundLocalError\<close> on its first line
  and the session stays open, whatever the pool and the digest are.
\<close>

theorem download_unwritable_destination_leaves_session_open:
  "(case download \<lparr>probe_answer = ranged_server ''1000'', dest_writable = False,
                    pool = p, hexdigest = h\<rparr>
           (init ''http://t/f'' ''/missing/f.bin'' 4 None None)
    of (r, m, e) \<Rightarrow> (r, m, session e))
   = (Raise UnboundLocalError, Unbound, SessionOpen)"
  by (simp add: download_def download_try_def download_finally_def preallocate_def
      probe_defs plan_defs)

end
